theory Spec2Isabelle
  imports Complex_Main
begin

section \<open>The TTS queue (tts/queue.ts)\<close>

text \<open>
  Guild identifiers and channel identifiers are strings, as in the source.  A voice
  connection is an object of the transport library; the model names each such object by a
  handle, and object identity (\<^verbatim>\<open>===\<close>) is equality of handles.

  JavaScript strings are modelled as lists of 8-bit characters: the model covers ASCII text.
\<close>

type_synonym guildId = string
type_synonym conn = nat

subsection \<open>Character classes and regular expressions of the sanitizer\<close>

text \<open>White space as matched by \<^verbatim>\<open>\s\<close> and removed by \<^verbatim>\<open>trim()\<close> (the ASCII part).\<close>

definition isSpace :: "char \<Rightarrow> bool" where
  "isSpace c = (c \<in> set [CHR '' '', CHR 0x09, CHR 0x0A, CHR 0x0B, CHR 0x0C, CHR 0x0D])"

definition isDigit :: "char \<Rightarrow> bool" where
  "isDigit c = (c \<in> set ''0123456789'')"

definition isUpper :: "char \<Rightarrow> bool" where
  "isUpper c = (c \<in> set ''ABCDEFGHIJKLMNOPQRSTUVWXYZ'')"

definition isLower :: "char \<Rightarrow> bool" where
  "isLower c = (c \<in> set ''abcdefghijklmnopqrstuvwxyz'')"

text \<open>The class \<^verbatim>\<open>[a-z0-9]\<close> under the flag \<^verbatim>\<open>i\<close>.\<close>

definition isAlnum :: "char \<Rightarrow> bool" where
  "isAlnum c = (isLower c \<or> isUpper c \<or> isDigit c)"

definition toLowerChar :: "char \<Rightarrow> char" where
  "toLowerChar c = (if isUpper c then char_of (of_char c + (32::nat)) else c)"

definition toLowerCase :: "string \<Rightarrow> string" where
  "toLowerCase s = map toLowerChar s"

definition trim :: "string \<Rightarrow> string" where
  "trim s = rev (dropWhile isSpace (rev (dropWhile isSpace s)))"

text \<open>
  A matcher says how many characters a regular expression consumes when it matches at the
  front of the string (always at least one for the expressions below), or \<open>None\<close>.
  The helper below is the tail \<^verbatim>\<open>\d+>\<close> shared by the mention expressions: one or more
  digits, then a closing angle bracket.
\<close>

definition digitsThenGt :: "string \<Rightarrow> nat option" where
  "digitsThenGt s =
     (let ds = takeWhile isDigit s in
      if ds = [] then None
      else (case dropWhile isDigit s of
              [] \<Rightarrow> None
            | c # _ \<Rightarrow> if c = CHR ''>'' then Some (Suc (length ds)) else None))"

text \<open>\<^verbatim>\<open>/@(everyone|here)/\<close>\<close>

definition matchEveryoneHere :: "string \<Rightarrow> nat option" where
  "matchEveryoneHere s =
     (if take 9 s = ''@everyone'' then Some 9
      else if take 5 s = ''@here'' then Some 5
      else None)"

text \<open>\<^verbatim>\<open>/<@&\d+>/\<close>\<close>

definition matchRole :: "string \<Rightarrow> nat option" where
  "matchRole s =
     (if take 3 s = ''<@&'' then map_option (\<lambda>n. 3 + n) (digitsThenGt (drop 3 s)) else None)"

text \<open>\<^verbatim>\<open>/<@!?\d+>/\<close>\<close>

definition matchUser :: "string \<Rightarrow> nat option" where
  "matchUser s =
     (if take 2 s = ''<@'' then
        (if take 1 (drop 2 s) = ''!''
         then map_option (\<lambda>n. 3 + n) (digitsThenGt (drop 3 s))
         else map_option (\<lambda>n. 2 + n) (digitsThenGt (drop 2 s)))
      else None)"

text \<open>\<^verbatim>\<open>/<#\d+>/\<close>\<close>

definition matchChannel :: "string \<Rightarrow> nat option" where
  "matchChannel s =
     (if take 2 s = ''<#'' then map_option (\<lambda>n. 2 + n) (digitsThenGt (drop 2 s)) else None)"

text \<open>
  \<^verbatim>\<open>s.replace(/re/g, '')\<close>: scan from the left; where the expression matches, drop
  the match and go on behind it; elsewhere keep the character.
\<close>

fun replaceAll :: "(string \<Rightarrow> nat option) \<Rightarrow> string \<Rightarrow> string" where
  "replaceAll m [] = []"
| "replaceAll m (c # cs) =
     (case m (c # cs) of
        None \<Rightarrow> c # replaceAll m cs
      | Some n \<Rightarrow> replaceAll m (drop (n - 1) cs))"

record ttsConfig =
  maxChars :: int

definition sanitizeText :: "ttsConfig \<Rightarrow> string \<Rightarrow> string" where
  "sanitizeText cfg text =
     (let sanitized =
            trim (replaceAll matchChannel (replaceAll matchUser
                   (replaceAll matchRole (replaceAll matchEveryoneHere text))))
      in if int (length sanitized) > maxChars cfg
         then take (nat (maxChars cfg)) sanitized
         else sanitized)"

subsection \<open>Sound triggers and segmentation\<close>

text \<open>
  The file system is an input of the model: \<open>isFile env p\<close> stands for
  \<^verbatim>\<open>fs.existsSync(p) && fs.statSync(p).isFile()\<close>, and \<open>subscribeOk env c\<close> says whether
  \<^verbatim>\<open>c.subscribe(player)\<close> returns a subscription (rather than nothing, or throwing).
  \<^verbatim>\<open>path.join\<close> is modelled as concatenation with a slash.
\<close>

record ttsEnv =
  soundsDir :: string
  isFile :: "string \<Rightarrow> bool"
  subscribeOk :: "conn \<Rightarrow> bool"

definition pathJoin :: "string \<Rightarrow> string \<Rightarrow> string" where
  "pathJoin dir name = dir @ ''/'' @ name"

definition resolveSoundFile :: "ttsEnv \<Rightarrow> string \<Rightarrow> string option" where
  "resolveSoundFile env soundKey =
     (let key = toLowerCase soundKey;
          candidates = [pathJoin (soundsDir env) (key @ ''.wav''),
                        pathJoin (soundsDir env) (key @ ''.mp3''),
                        pathJoin (soundsDir env) (key @ ''.ogg''),
                        pathJoin (soundsDir env) (key @ ''.opus'')]
      in find (isFile env) candidates)"

text \<open>\<^verbatim>\<open>text.split(/\s+/).filter(Boolean)\<close>: the maximal runs of characters that are not white space.\<close>

fun splitWsAux :: "string \<Rightarrow> string \<Rightarrow> string list" where
  "splitWsAux cur [] = (if cur = [] then [] else [cur])"
| "splitWsAux cur (c # cs) =
     (if isSpace c then (if cur = [] then [] else [cur]) @ splitWsAux [] cs
      else splitWsAux (cur @ [c]) cs)"

definition splitWs :: "string \<Rightarrow> string list" where
  "splitWs text = splitWsAux [] text"

text \<open>\<^verbatim>\<open>buffer.join(' ')\<close>\<close>

fun joinSpace :: "string list \<Rightarrow> string" where
  "joinSpace [] = []"
| "joinSpace [w] = w"
| "joinSpace (w # ws) = w @ '' '' @ joinSpace ws"

text \<open>\<^verbatim>\<open>raw.toLowerCase().replace(/^[^a-z0-9]+|[^a-z0-9]+$/gi, '')\<close>\<close>

definition normalizeToken :: "string \<Rightarrow> string" where
  "normalizeToken raw =
     rev (dropWhile (\<lambda>c. \<not> isAlnum c) (rev (dropWhile (\<lambda>c. \<not> isAlnum c) (toLowerCase raw))))"

datatype segment = SegTts string | SegSound string string

text \<open>The loop of \<^verbatim>\<open>splitIntoSegments\<close> carries the pair of \<^verbatim>\<open>out\<close> and \<^verbatim>\<open>buffer\<close>.\<close>

definition flush :: "segment list \<times> string list \<Rightarrow> segment list \<times> string list" where
  "flush ob =
     (case ob of (out, buffer) \<Rightarrow>
        if buffer \<noteq> [] then (out @ [SegTts (joinSpace buffer)], []) else (out, buffer))"

definition soundOf :: "ttsEnv \<Rightarrow> string \<Rightarrow> string option" where
  "soundOf env raw =
     (let token = normalizeToken raw in
      if token \<noteq> [] then resolveSoundFile env token else None)"

definition segStep :: "ttsEnv \<Rightarrow> segment list \<times> string list \<Rightarrow> string \<Rightarrow> segment list \<times> string list" where
  "segStep env ob raw =
     (case soundOf env raw of
        Some filePath \<Rightarrow>
          (case flush ob of (out, buffer) \<Rightarrow> (out @ [SegSound (normalizeToken raw) filePath], buffer))
      | None \<Rightarrow> (case ob of (out, buffer) \<Rightarrow> (out, buffer @ [raw])))"

definition splitIntoSegments :: "ttsEnv \<Rightarrow> string \<Rightarrow> segment list" where
  "splitIntoSegments env text = fst (flush (foldl (segStep env) ([], []) (splitWs text)))"

subsection \<open>The queue state and \<^verbatim>\<open>enqueue\<close>\<close>

text \<open>
  A request id \<^verbatim>\<open>`${guildId}-${Date.now()}-${segIndex}`\<close> is kept as the triple of its
  parts.  The clock is an argument \<open>now\<close> of the call; the second reading of the clock for
  the request id is identified with the first.
\<close>

type_synonym requestId = "guildId \<times> int \<times> nat"

datatype QueueItem = Tts string requestId | Sound string string requestId

datatype AudioPlayerStatus = PlayerIdle | Buffering | Playing | Paused | AutoPaused

datatype ttsError = RateLimit | EmptyText

text \<open>
  The maps of the class \<^verbatim>\<open>TtsQueue\<close>.  A player is represented by its status, a
  subscription by the connection it routes to.
\<close>

record TtsQueue =
  queues :: "guildId \<rightharpoonup> QueueItem list"
  players :: "guildId \<rightharpoonup> AudioPlayerStatus"
  subscriptions :: "guildId \<rightharpoonup> conn"
  processing :: "guildId \<rightharpoonup> bool"
  currentConnections :: "guildId \<rightharpoonup> conn"
  lastRequestTime :: "guildId \<rightharpoonup> int"

definition minRequestInterval :: int where
  "minRequestInterval = 200"

text \<open>\<^verbatim>\<open>this.lastRequestTime.get(guildId) || 0\<close>\<close>

definition lastRequest :: "TtsQueue \<Rightarrow> guildId \<Rightarrow> int" where
  "lastRequest q g = (case lastRequestTime q g of None \<Rightarrow> 0 | Some t \<Rightarrow> t)"

definition checkRateLimit :: "int \<Rightarrow> guildId \<Rightarrow> TtsQueue \<Rightarrow> bool \<times> TtsQueue" where
  "checkRateLimit now g q =
     (let last = lastRequest q g in
      if now - last < minRequestInterval then (False, q)
      else (True, q\<lparr>lastRequestTime := (lastRequestTime q)(g \<mapsto> now)\<rparr>))"

definition ensureSubscribed :: "ttsEnv \<Rightarrow> guildId \<Rightarrow> conn \<Rightarrow> TtsQueue \<Rightarrow> TtsQueue" where
  "ensureSubscribed env g connection q =
     (if subscriptions q g = Some connection then q
      else
        let q1 = q\<lparr>subscriptions := (subscriptions q)(g := None)\<rparr> in
        if subscribeOk env connection
        then q1\<lparr>subscriptions := (subscriptions q1)(g \<mapsto> connection)\<rparr>
        else q1)"

definition getConnectionOrNull :: "guildId \<Rightarrow> TtsQueue \<Rightarrow> conn option" where
  "getConnectionOrNull g q = currentConnections q g"

text \<open>The loop of \<^verbatim>\<open>enqueue\<close> over the segments, \<open>i\<close> being \<^verbatim>\<open>segIndex\<close>.\<close>

fun expandSegments :: "ttsConfig \<Rightarrow> guildId \<Rightarrow> int \<Rightarrow> nat \<Rightarrow> segment list \<Rightarrow> QueueItem list" where
  "expandSegments cfg g now i [] = []"
| "expandSegments cfg g now i (SegSound key filePath # segs) =
     Sound key filePath (g, now, i) # expandSegments cfg g now (Suc i) segs"
| "expandSegments cfg g now i (SegTts text # segs) =
     (let segText = sanitizeText cfg text in
      (if segText \<noteq> [] then [Tts segText (g, now, i)] else [])
        @ expandSegments cfg g now (Suc i) segs)"

text \<open>
  \<^verbatim>\<open>processQueue\<close> up to its first suspension: the guards, the routing of the player to
  the current connection, the flag and the removal of the head item, which is returned.
  Synthesis and playback, which follow, are not modelled.
\<close>

definition processQueue_begin :: "ttsEnv \<Rightarrow> guildId \<Rightarrow> TtsQueue \<Rightarrow> QueueItem option \<times> TtsQueue" where
  "processQueue_begin env g q =
     (if processing q g = Some True then (None, q)
      else
        (case queues q g of
           None \<Rightarrow> (None, q)
         | Some [] \<Rightarrow> (None, q)
         | Some (item # rest) \<Rightarrow>
             (case players q g of
                None \<Rightarrow> (None, q)
              | Some status \<Rightarrow>
                  if status \<noteq> PlayerIdle then (None, q)
                  else
                    (case getConnectionOrNull g q of
                       None \<Rightarrow> (None, q\<lparr>queues := (queues q)(g \<mapsto> [])\<rparr>)
                     | Some connection \<Rightarrow>
                         let q1 = ensureSubscribed env g connection q;
                             q2 = q1\<lparr>processing := (processing q1)(g \<mapsto> True)\<rparr>
                         in (Some item, q2\<lparr>queues := (queues q2)(g \<mapsto> rest)\<rparr>)))))"

text \<open>The part of \<^verbatim>\<open>enqueue\<close> that pushes the items of an accepted text.\<close>

definition enqueuePush :: "ttsConfig \<Rightarrow> ttsEnv \<Rightarrow> int \<Rightarrow> guildId \<Rightarrow> string \<Rightarrow> TtsQueue \<Rightarrow> TtsQueue" where
  "enqueuePush cfg env now g sanitized q =
     (let queue = (case queues q g of None \<Rightarrow> [] | Some items \<Rightarrow> items);
          segments = splitIntoSegments env sanitized
      in q\<lparr>queues := (queues q)(g \<mapsto> queue @ expandSegments cfg g now 0 segments)\<rparr>)"

text \<open>Creation of the player on first use, and the subscription on every call.\<close>

definition enqueuePlayer :: "ttsEnv \<Rightarrow> guildId \<Rightarrow> conn \<Rightarrow> TtsQueue \<Rightarrow> TtsQueue" where
  "enqueuePlayer env g connection q =
     (let q1 = (if players q g = None
                then ensureSubscribed env g connection (q\<lparr>players := (players q)(g \<mapsto> PlayerIdle)\<rparr>)
                else q)
      in ensureSubscribed env g connection q1)"

text \<open>
  \<^verbatim>\<open>enqueue\<close>: a rejection is the left summand, and the state is returned in both cases,
  since the call changes it before it throws.
\<close>

definition enqueue ::
  "ttsConfig \<Rightarrow> ttsEnv \<Rightarrow> int \<Rightarrow> guildId \<Rightarrow> string \<Rightarrow> conn \<Rightarrow> TtsQueue \<Rightarrow> (ttsError + unit) \<times> TtsQueue" where
  "enqueue cfg env now g text connection q =
     (case checkRateLimit now g q of
        (False, q0) \<Rightarrow> (Inl RateLimit, q0)
      | (True, q0) \<Rightarrow>
          let q1 = q0\<lparr>currentConnections := (currentConnections q0)(g \<mapsto> connection)\<rparr>;
              sanitized = sanitizeText cfg text
          in if sanitized = [] then (Inl EmptyText, q1)
             else
               let q2 = enqueuePush cfg env now g sanitized q1;
                   q3 = enqueuePlayer env g connection q2
               in (Inr (), snd (processQueue_begin env g q3)))"

definition emptyQueue :: TtsQueue where
  "emptyQueue = \<lparr>queues = Map.empty, players = Map.empty, subscriptions = Map.empty,
     processing = Map.empty, currentConnections = Map.empty, lastRequestTime = Map.empty\<rparr>"

subsection \<open>Concrete configurations and states used in examples\<close>

text \<open>The default of \<^verbatim>\<open>getTtsConfig\<close> (\<^verbatim>\<open>MAX_TTS_CHARS\<close> unset).\<close>

definition defaultTtsConfig :: ttsConfig where
  "defaultTtsConfig = \<lparr>maxChars = 200\<rparr>"

text \<open>A sound directory holding the single file \<^verbatim>\<open>sounds/hmph.wav\<close>.\<close>

definition hmphOnly :: ttsEnv where
  "hmphOnly = \<lparr>soundsDir = ''sounds'', isFile = (\<lambda>p. p = ''sounds/hmph.wav''),
     subscribeOk = (\<lambda>c. True)\<rparr>"

definition afterHello :: TtsQueue where
  "afterHello = snd (enqueue defaultTtsConfig hmphOnly 1000 ''g1'' ''hello'' 7 emptyQueue)"

definition afterEmpty :: TtsQueue where
  "afterEmpty = snd (enqueue defaultTtsConfig hmphOnly 5000 ''g1'' [] 7 afterHello)"

text \<open>A guild with one item waiting, an idle player routed to connection 7.\<close>

definition oneWaiting :: TtsQueue where
  "oneWaiting = \<lparr>queues = [''g1'' \<mapsto> [Tts ''later'' (''g1'', 1000, 0)]],
     players = [''g1'' \<mapsto> PlayerIdle], subscriptions = [''g1'' \<mapsto> 7],
     processing = [''g1'' \<mapsto> False], currentConnections = [''g1'' \<mapsto> 7],
     lastRequestTime = [''g1'' \<mapsto> 1000]\<rparr>"

definition afterMention :: TtsQueue where
  "afterMention = snd (enqueue defaultTtsConfig hmphOnly 5000 ''g1'' ''@everyone'' 9 oneWaiting)"

subsection \<open>Segmentation as the specification words it\<close>

text \<open>
  The specification's description of segmentation, over the list of tokens: a token that
  resolves to a sound is a sound segment of its own; a token that does not starts a speech
  segment that takes all the tokens up to the next sound token (a maximal run), rejoined with
  single blanks.
\<close>

function segmentRuns :: "ttsEnv \<Rightarrow> string list \<Rightarrow> segment list" where
  "segmentRuns env [] = []"
| "segmentRuns env (t # ts) =
     (case soundOf env t of
        Some filePath \<Rightarrow> SegSound (normalizeToken t) filePath # segmentRuns env ts
      | None \<Rightarrow>
          SegTts (joinSpace (t # takeWhile (\<lambda>r. soundOf env r = None) ts))
            # segmentRuns env (dropWhile (\<lambda>r. soundOf env r = None) ts))"
  by pat_completeness auto
termination
  by (relation "measure (\<lambda>(env, ts). length ts)") (auto simp: length_dropWhile_le less_Suc_eq_le)

text \<open>Text in which no mention expression can match, and what a token is.\<close>

definition plainText :: "string \<Rightarrow> bool" where
  "plainText s = (CHR ''@'' \<notin> set s \<and> CHR ''<'' \<notin> set s)"

definition tokenOk :: "string \<Rightarrow> bool" where
  "tokenOk w = (w \<noteq> [] \<and> (\<forall>c\<in>set w. \<not> isSpace c))"

section \<open>The voice manager (voice/voiceManager.ts)\<close>

datatype VoiceState = Idle | Connecting | Ready | Moving | Disconnecting | Backoff

text \<open>Of a \<^verbatim>\<open>VoiceBasedChannel\<close> the manager reads \<^verbatim>\<open>channel.id\<close> and \<^verbatim>\<open>channel.guild.id\<close>.\<close>

record channel =
  chanId :: string
  chanGuild :: guildId

text \<open>
  \<^verbatim>\<open>operationLock\<close> is a promise or null; the model keeps whether a promise is installed.
\<close>

record GuildVoiceState =
  state :: VoiceState
  connection :: "conn option"
  channelId :: "string option"
  retries :: nat
  lastError :: "string option"
  operationLock :: bool

text \<open>
  The settings read from the environment with \<^verbatim>\<open>parseInt\<close>.  The two timeouts are not part
  of the model: whether an attempt becomes ready in time is an input.
\<close>

record voiceConfig =
  maxRetries :: int
  backoffBase :: int
  backoffMax :: int

text \<open>
  Besides the map \<^verbatim>\<open>guildStates\<close> the model keeps what the manager has done to the transport:
  the connections on which \<^verbatim>\<open>destroy()\<close> has been called, and the pairs of a connection
  and a guild id for which \<^verbatim>\<open>setupConnectionHandlers\<close> has registered handlers.  Two fields
  record what a run did and are read by no operation: \<open>locksTaken\<close> counts the lock promises
  that \<^verbatim>\<open>acquireLock\<close> installed for a guild, \<open>sleeps\<close> lists the backoff delays slept for
  a guild.  The state object that the operations receive by reference is the guild's entry of
  the map; \<^verbatim>\<open>cleanup\<close>, which removes entries, is not modelled.
\<close>

record VoiceManager =
  guildStates :: "guildId \<rightharpoonup> GuildVoiceState"
  destroyed :: "conn set"
  handlers :: "(conn \<times> guildId) list"
  locksTaken :: "guildId \<Rightarrow> nat"
  sleeps :: "guildId \<Rightarrow> real list"

definition emptyManager :: VoiceManager where
  "emptyManager = \<lparr>guildStates = Map.empty, destroyed = {}, handlers = [],
     locksTaken = (\<lambda>g. 0), sleeps = (\<lambda>g. [])\<rparr>"

definition initialState :: GuildVoiceState where
  "initialState = \<lparr>state = Idle, connection = None, channelId = None, retries = 0,
     lastError = None, operationLock = False\<rparr>"

definition getOrCreateState :: "guildId \<Rightarrow> VoiceManager \<Rightarrow> VoiceManager" where
  "getOrCreateState g vm =
     (if guildStates vm g = None then vm\<lparr>guildStates := (guildStates vm)(g \<mapsto> initialState)\<rparr>
      else vm)"

text \<open>An assignment to fields of the guild's state object.\<close>

definition modifyState :: "guildId \<Rightarrow> (GuildVoiceState \<Rightarrow> GuildVoiceState) \<Rightarrow> VoiceManager \<Rightarrow> VoiceManager" where
  "modifyState g f vm = vm\<lparr>guildStates := (guildStates vm)(g := map_option f (guildStates vm g))\<rparr>"

text \<open>\<^verbatim>\<open>connection.destroy()\<close>, taken as idempotent and never throwing.\<close>

definition destroyConn :: "conn \<Rightarrow> VoiceManager \<Rightarrow> VoiceManager" where
  "destroyConn c vm = vm\<lparr>destroyed := insert c (destroyed vm)\<rparr>"

text \<open>\<^verbatim>\<open>state.connection?.destroy()\<close>\<close>

definition destroyCurrent :: "guildId \<Rightarrow> VoiceManager \<Rightarrow> VoiceManager" where
  "destroyCurrent g vm =
     (case guildStates vm g of
        None \<Rightarrow> vm
      | Some s \<Rightarrow> (case connection s of None \<Rightarrow> vm | Some c \<Rightarrow> destroyConn c vm))"

text \<open>
  \<^verbatim>\<open>calculateBackoff\<close>, over the reals; \<open>rnd\<close> is the value of \<^verbatim>\<open>Math.random()\<close>.
\<close>

definition exponential :: "voiceConfig \<Rightarrow> nat \<Rightarrow> real" where
  "exponential cfg n = min (real_of_int (backoffBase cfg) * 2 ^ n) (real_of_int (backoffMax cfg))"

definition calculateBackoff :: "voiceConfig \<Rightarrow> real \<Rightarrow> nat \<Rightarrow> real" where
  "calculateBackoff cfg rnd n =
     (let jitter = rnd * 0.3 * exponential cfg n
      in exponential cfg n + jitter)"

subsection \<open>Signals of the transport\<close>

text \<open>
  The handlers that \<^verbatim>\<open>setupConnectionHandlers(connection, guildId)\<close> registers.  The handler
  for \<^verbatim>\<open>Destroyed\<close> resets the state found under the guild id.  The handler for
  \<^verbatim>\<open>Disconnected\<close> first waits for the connection to recover; \<open>onDisconnectedLost\<close> is what
  it does when that wait fails.  A recovered connection changes nothing.
\<close>

definition setupConnectionHandlers :: "conn \<Rightarrow> guildId \<Rightarrow> VoiceManager \<Rightarrow> VoiceManager" where
  "setupConnectionHandlers c g vm = vm\<lparr>handlers := (c, g) # handlers vm\<rparr>"

definition resetSession :: "GuildVoiceState \<Rightarrow> GuildVoiceState" where
  "resetSession s = s\<lparr>connection := None, channelId := None, state := Idle, retries := 0\<rparr>"

definition onDestroyed :: "conn \<Rightarrow> guildId \<Rightarrow> VoiceManager \<Rightarrow> VoiceManager" where
  "onDestroyed c g vm = modifyState g resetSession vm"

definition onDisconnectedLost :: "conn \<Rightarrow> guildId \<Rightarrow> VoiceManager \<Rightarrow> VoiceManager" where
  "onDisconnectedLost c g vm = modifyState g resetSession (destroyConn c vm)"

datatype signal = Destroyed conn guildId | DisconnectedLost conn guildId

text \<open>A signal does something only if a handler was registered for it.\<close>

fun deliver :: "signal \<Rightarrow> VoiceManager \<Rightarrow> VoiceManager" where
  "deliver (Destroyed c g) vm = (if (c, g) \<in> set (handlers vm) then onDestroyed c g vm else vm)"
| "deliver (DisconnectedLost c g) vm =
     (if (c, g) \<in> set (handlers vm) then onDisconnectedLost c g vm else vm)"

fun signalGuild :: "signal \<Rightarrow> guildId" where
  "signalGuild (Destroyed c g) = g"
| "signalGuild (DisconnectedLost c g) = g"

definition deliverAll :: "signal list \<Rightarrow> VoiceManager \<Rightarrow> VoiceManager" where
  "deliverAll sigs vm = foldl (\<lambda>v s. deliver s v) vm sigs"

subsection \<open>The operations, cut at their suspension points\<close>

text \<open>
  \<^verbatim>\<open>joinUnlockedOnce\<close> up to its wait for the ready signal; \<open>c\<close> is the connection that
  \<^verbatim>\<open>joinVoiceChannel\<close> returned.
\<close>

definition joinUnlockedOnce_begin :: "channel \<Rightarrow> conn \<Rightarrow> VoiceManager \<Rightarrow> VoiceManager" where
  "joinUnlockedOnce_begin ch c vm =
     setupConnectionHandlers c (chanGuild ch)
       (modifyState (chanGuild ch) (\<lambda>s. s\<lparr>state := Connecting\<rparr>) vm)"

text \<open>\<^verbatim>\<open>joinUnlockedOnce\<close> after the ready signal has arrived in time.\<close>

definition joinUnlockedOnce_ready :: "channel \<Rightarrow> conn \<Rightarrow> VoiceManager \<Rightarrow> VoiceManager" where
  "joinUnlockedOnce_ready ch c vm =
     modifyState (chanGuild ch)
       (\<lambda>s. s\<lparr>connection := Some c, channelId := Some (chanId ch), state := Ready,
               retries := 0, lastError := None\<rparr>) vm"

text \<open>
  The \<^verbatim>\<open>catch\<close> block of \<^verbatim>\<open>joinUnlockedWithRetries\<close>, up to the backoff sleep (the result
  is \<open>True\<close>: the loop continues) or to the \<^verbatim>\<open>throw\<close> (the result is \<open>False\<close>).
\<close>

definition joinCatch :: "voiceConfig \<Rightarrow> channel \<Rightarrow> string \<Rightarrow> real \<Rightarrow> VoiceManager \<Rightarrow> bool \<times> VoiceManager" where
  "joinCatch cfg ch err rnd vm =
     (let g = chanGuild ch;
          vm1 = modifyState g (\<lambda>s. s\<lparr>lastError := Some err\<rparr>) vm;
          vm2 = destroyCurrent g vm1;
          vm3 = modifyState g (\<lambda>s. s\<lparr>connection := None, channelId := None\<rparr>) vm2
      in case guildStates vm3 g of
           None \<Rightarrow> (False, vm3)
         | Some s \<Rightarrow>
             if int (retries s) < maxRetries cfg then
               let vm4 = modifyState g (\<lambda>s. s\<lparr>retries := retries s + 1, state := Backoff\<rparr>) vm3;
                   backoff = calculateBackoff cfg rnd (retries s + 1)
               in (True, vm4\<lparr>sleeps := (sleeps vm4)(g := sleeps vm4 g @ [backoff])\<rparr>)
             else (False, modifyState g (\<lambda>s. s\<lparr>retries := 0, state := Idle\<rparr>) vm3))"

text \<open>
  What the environment does to one attempt: the connection that the transport hands out, the
  signals handled while the attempt waits, whether the attempt fails (with which error) or
  becomes ready, the random number drawn for the backoff and the signals handled during the
  backoff sleep.
\<close>

record attempt =
  handle :: conn
  whileConnecting :: "signal list"
  failure :: "string option"
  randomDraw :: real
  whileSleeping :: "signal list"

text \<open>
  How a call has ended: it returned, it threw, or it is still suspended because the list of
  attempts that the environment answered is used up (or because it waits for the lock).
\<close>

datatype 'a completion = Resolved 'a | Rejected string | Pending

fun joinUnlockedWithRetries ::
  "voiceConfig \<Rightarrow> attempt list \<Rightarrow> channel \<Rightarrow> VoiceManager \<Rightarrow> conn completion \<times> VoiceManager" where
  "joinUnlockedWithRetries cfg [] ch vm = (Pending, vm)"
| "joinUnlockedWithRetries cfg (a # env) ch vm =
     (let vm1 = deliverAll (whileConnecting a) (joinUnlockedOnce_begin ch (handle a) vm) in
      case failure a of
        None \<Rightarrow> (Resolved (handle a), joinUnlockedOnce_ready ch (handle a) vm1)
      | Some err \<Rightarrow>
          (case joinCatch cfg ch err (randomDraw a) vm1 of
             (True, vm2) \<Rightarrow> joinUnlockedWithRetries cfg env ch (deliverAll (whileSleeping a) vm2)
           | (False, vm2) \<Rightarrow> (Rejected err, vm2)))"

text \<open>
  \<^verbatim>\<open>acquireLock\<close>.  A call that finds a lock promise installed waits for it; read as a
  single call on its own, it stays suspended.  Otherwise the call installs its promise, runs
  the operation and, when the operation has returned or thrown, removes the promise.
\<close>

definition lockHeld :: "guildId \<Rightarrow> VoiceManager \<Rightarrow> bool" where
  "lockHeld g vm = (case guildStates vm g of None \<Rightarrow> False | Some s \<Rightarrow> operationLock s)"

definition takeLock :: "guildId \<Rightarrow> VoiceManager \<Rightarrow> VoiceManager" where
  "takeLock g vm =
     (modifyState g (\<lambda>s. s\<lparr>operationLock := True\<rparr>) vm)\<lparr>locksTaken := (locksTaken vm)(g := locksTaken vm g + 1)\<rparr>"

definition releaseLock :: "guildId \<Rightarrow> VoiceManager \<Rightarrow> VoiceManager" where
  "releaseLock g vm = modifyState g (\<lambda>s. s\<lparr>operationLock := False\<rparr>) vm"

definition acquireLock ::
  "guildId \<Rightarrow> (VoiceManager \<Rightarrow> 'a completion \<times> VoiceManager) \<Rightarrow> VoiceManager \<Rightarrow> 'a completion \<times> VoiceManager" where
  "acquireLock g operation vm =
     (let vm1 = getOrCreateState g vm in
      if lockHeld g vm1 then (Pending, vm1)
      else
        (case operation (takeLock g vm1) of
           (Pending, vm2) \<Rightarrow> (Pending, vm2)
         | (r, vm2) \<Rightarrow> (r, releaseLock g vm2)))"

definition join :: "voiceConfig \<Rightarrow> attempt list \<Rightarrow> channel \<Rightarrow> VoiceManager \<Rightarrow> conn completion \<times> VoiceManager" where
  "join cfg env ch vm =
     acquireLock (chanGuild ch)
       (\<lambda>v. joinUnlockedWithRetries cfg env ch (getOrCreateState (chanGuild ch) v)) vm"

text \<open>The body of \<^verbatim>\<open>move\<close> before it calls \<^verbatim>\<open>joinUnlockedWithRetries\<close>.\<close>

definition moveBegin :: "guildId \<Rightarrow> VoiceManager \<Rightarrow> VoiceManager" where
  "moveBegin g vm =
     (let vm1 = modifyState g (\<lambda>s. s\<lparr>state := Moving\<rparr>) (getOrCreateState g vm) in
      case guildStates vm1 g of
        None \<Rightarrow> vm1
      | Some s \<Rightarrow>
          (case connection s of
             None \<Rightarrow> vm1
           | Some c \<Rightarrow>
               modifyState g (\<lambda>s. s\<lparr>connection := None, channelId := None\<rparr>) (destroyConn c vm1)))"

definition move :: "voiceConfig \<Rightarrow> attempt list \<Rightarrow> channel \<Rightarrow> VoiceManager \<Rightarrow> conn completion \<times> VoiceManager" where
  "move cfg env ch vm =
     acquireLock (chanGuild ch)
       (\<lambda>v. joinUnlockedWithRetries cfg env ch (moveBegin (chanGuild ch) v)) vm"

text \<open>The operation of \<^verbatim>\<open>leave\<close>; it has no suspension point.\<close>

definition leaveBody :: "guildId \<Rightarrow> VoiceManager \<Rightarrow> VoiceManager" where
  "leaveBody g vm =
     (case guildStates vm g of
        None \<Rightarrow> vm
      | Some s \<Rightarrow>
          (case connection s of
             None \<Rightarrow> vm
           | Some c \<Rightarrow>
               modifyState g (\<lambda>s. s\<lparr>connection := None, channelId := None, state := Idle, retries := 0\<rparr>)
                 (destroyConn c (modifyState g (\<lambda>s. s\<lparr>state := Disconnecting\<rparr>) vm))))"

definition leave :: "guildId \<Rightarrow> VoiceManager \<Rightarrow> unit completion \<times> VoiceManager" where
  "leave g vm = acquireLock g (\<lambda>v. (Resolved (), leaveBody g v)) vm"

definition getConnection :: "guildId \<Rightarrow> VoiceManager \<Rightarrow> conn option" where
  "getConnection g vm = (case guildStates vm g of None \<Rightarrow> None | Some s \<Rightarrow> connection s)"


definition isInVoice :: "guildId \<Rightarrow> VoiceManager \<Rightarrow> bool" where
  "isInVoice g vm =
     (case guildStates vm g of None \<Rightarrow> False | Some s \<Rightarrow> state s = Ready \<and> connection s \<noteq> None)"

subsection \<open>Observable points\<close>

text \<open>
  Between two suspension points the code runs without interruption.  An event is one such
  uninterrupted piece of the manager; the states that other code can observe are the states
  between events.  Events may follow each other in any order here, which covers every
  interleaving of calls, retries and signals.
\<close>

datatype event =
    JoinStarted channel conn
  | MoveStarted channel conn
  | RetryStarted channel conn
  | AttemptReady channel conn
  | AttemptFailed channel string real
  | LockReleased guildId
  | LeaveDone guildId
  | Signalled signal

fun step :: "voiceConfig \<Rightarrow> VoiceManager \<Rightarrow> event \<Rightarrow> VoiceManager" where
  "step cfg vm (JoinStarted ch c) =
     joinUnlockedOnce_begin ch c (getOrCreateState (chanGuild ch) (takeLock (chanGuild ch) (getOrCreateState (chanGuild ch) vm)))"
| "step cfg vm (MoveStarted ch c) =
     joinUnlockedOnce_begin ch c (moveBegin (chanGuild ch) (takeLock (chanGuild ch) (getOrCreateState (chanGuild ch) vm)))"
| "step cfg vm (RetryStarted ch c) = joinUnlockedOnce_begin ch c vm"
| "step cfg vm (AttemptReady ch c) = joinUnlockedOnce_ready ch c vm"
| "step cfg vm (AttemptFailed ch err rnd) = snd (joinCatch cfg ch err rnd vm)"
| "step cfg vm (LockReleased g) = releaseLock g vm"
| "step cfg vm (LeaveDone g) = releaseLock g (leaveBody g (takeLock g (getOrCreateState g vm)))"
| "step cfg vm (Signalled s) = deliver s vm"

definition run :: "voiceConfig \<Rightarrow> event list \<Rightarrow> VoiceManager \<Rightarrow> VoiceManager" where
  "run cfg evs vm = foldl (step cfg) vm evs"

section \<open>The follower (voice/follow.ts)\<close>

text \<open>
  The settings file, read by \<^verbatim>\<open>get247Enabled\<close>, is an input.  \<^verbatim>\<open>mode247Enabled\<close> is an
  optional field; \<^verbatim>\<open>Boolean(undefined)\<close> is false.
\<close>

record GuildSettings =
  recordingEnabled :: "bool option"
  mode247Enabled :: "bool option"

type_synonym settingsFile = "guildId \<rightharpoonup> GuildSettings"

definition get247Enabled :: "settingsFile \<Rightarrow> guildId \<Rightarrow> bool" where
  "get247Enabled file g =
     (case file g of None \<Rightarrow> False | Some st \<Rightarrow> (case mode247Enabled st of None \<Rightarrow> False | Some b \<Rightarrow> b))"

text \<open>
  Of the two \<^verbatim>\<open>VoiceState\<close> objects of an update the follower reads the guild id, the two
  channel ids and the channel object of the new state (which may be missing).
\<close>

record voiceUpdate =
  updGuild :: guildId
  oldChannelId :: "string option"
  newChannelId :: "string option"
  newChannel :: "channel option"

text \<open>A string or null as a condition: null and the empty string are false.\<close>

definition truthy :: "string option \<Rightarrow> bool" where
  "truthy x = (case x of None \<Rightarrow> False | Some s \<Rightarrow> s \<noteq> [])"

datatype supervisorCall = CallJoin channel | CallMove channel | CallLeave guildId

text \<open>
  Which method of the manager \<^verbatim>\<open>processVoiceStateUpdate\<close> ends up calling, through
  \<^verbatim>\<open>handleOwnerJoin\<close>, \<^verbatim>\<open>handleOwnerMove\<close> or \<^verbatim>\<open>handleOwnerLeave\<close>, if any.
\<close>

definition handleOwnerJoin :: "voiceUpdate \<Rightarrow> supervisorCall option" where
  "handleOwnerJoin u = (case newChannel u of None \<Rightarrow> None | Some ch \<Rightarrow> Some (CallJoin ch))"

definition handleOwnerMove :: "voiceUpdate \<Rightarrow> supervisorCall option" where
  "handleOwnerMove u = (case newChannel u of None \<Rightarrow> None | Some ch \<Rightarrow> Some (CallMove ch))"

definition handleOwnerLeave :: "settingsFile \<Rightarrow> guildId \<Rightarrow> supervisorCall option" where
  "handleOwnerLeave file g = (if get247Enabled file g then None else Some (CallLeave g))"

definition followerCall :: "settingsFile \<Rightarrow> voiceUpdate \<Rightarrow> supervisorCall option" where
  "followerCall file u =
     (if \<not> truthy (oldChannelId u) \<and> truthy (newChannelId u) then handleOwnerJoin u
      else if truthy (oldChannelId u) \<and> truthy (newChannelId u) \<and> oldChannelId u \<noteq> newChannelId u
        then handleOwnerMove u
      else if truthy (oldChannelId u) \<and> \<not> truthy (newChannelId u)
        then handleOwnerLeave file (updGuild u)
      else None)"

text \<open>
  \<^verbatim>\<open>processVoiceStateUpdate\<close> as a change of the manager; errors of the call are logged and
  not passed on.
\<close>

definition processVoiceStateUpdate ::
  "voiceConfig \<Rightarrow> settingsFile \<Rightarrow> attempt list \<Rightarrow> voiceUpdate \<Rightarrow> VoiceManager \<Rightarrow> VoiceManager" where
  "processVoiceStateUpdate cfg file env u vm =
     (case followerCall file u of
        None \<Rightarrow> vm
      | Some (CallJoin ch) \<Rightarrow> snd (join cfg env ch vm)
      | Some (CallMove ch) \<Rightarrow> snd (move cfg env ch vm)
      | Some (CallLeave g) \<Rightarrow> snd (leave g vm))"

section \<open>Notions used in the properties\<close>


text \<open>
  \<open>atRest\<close>: no operation holds the guild's lock and the retry counter is zero, as after every
  completed operation.  \<open>joinStart\<close> is the state in which \<^verbatim>\<open>join\<close> enters the retry loop.
\<close>

definition atRest :: "guildId \<Rightarrow> VoiceManager \<Rightarrow> bool" where
  "atRest g vm =
     (case guildStates vm g of None \<Rightarrow> True | Some s \<Rightarrow> \<not> operationLock s \<and> retries s = 0)"

definition joinStart :: "guildId \<Rightarrow> VoiceManager \<Rightarrow> VoiceManager" where
  "joinStart g vm = getOrCreateState g (takeLock g (getOrCreateState g vm))"

text \<open>
  Conditions on the environment of a call: no signal that is addressed to the guild arrives
  during the call (\<open>quietFor\<close>), no signal at all (\<open>silent\<close>), every attempt fails
  (\<open>allFail\<close>), every random number lies in \<open>[0, 1)\<close> as \<^verbatim>\<open>Math.random()\<close> promises.
\<close>

definition quietFor :: "guildId \<Rightarrow> attempt list \<Rightarrow> bool" where
  "quietFor g env =
     list_all (\<lambda>a. list_all (\<lambda>s. signalGuild s \<noteq> g) (whileConnecting a @ whileSleeping a)) env"


definition allFail :: "attempt list \<Rightarrow> bool" where
  "allFail env = list_all (\<lambda>a. failure a \<noteq> None) env"

definition drawsInRange :: "attempt list \<Rightarrow> bool" where
  "drawsInRange env = list_all (\<lambda>a. 0 \<le> randomDraw a \<and> randomDraw a < 1) env"

text \<open>
  What the retry loop amounts to when no signal interferes: with \<open>n\<close> retries left, the
  result of the call, and, from retry counter \<open>r\<close>, the list of the backoff delays.
\<close>

fun retryOutcome :: "nat \<Rightarrow> attempt list \<Rightarrow> conn completion" where
  "retryOutcome n [] = Pending"
| "retryOutcome n (a # env) =
     (case failure a of
        None \<Rightarrow> Resolved (handle a)
      | Some err \<Rightarrow> (case n of 0 \<Rightarrow> Rejected err | Suc m \<Rightarrow> retryOutcome m env))"

fun backoffs :: "voiceConfig \<Rightarrow> nat \<Rightarrow> attempt list \<Rightarrow> real list" where
  "backoffs cfg r [] = []"
| "backoffs cfg r (a # env) =
     (case failure a of
        None \<Rightarrow> []
      | Some err \<Rightarrow>
          if int r < maxRetries cfg
          then calculateBackoff cfg (randomDraw a) (r + 1) # backoffs cfg (r + 1) env
          else [])"

text \<open>
  The invariant of a session, and of all sessions of a manager.
\<close>

definition sessionOk :: "GuildVoiceState \<Rightarrow> bool" where
  "sessionOk s =
     ((channelId s = None \<longleftrightarrow> connection s = None)
      \<and> (state s = Ready \<longrightarrow> connection s \<noteq> None)
      \<and> (connection s \<noteq> None \<longrightarrow> state s = Ready \<or> state s = Connecting))"

definition allOk :: "VoiceManager \<Rightarrow> bool" where
  "allOk vm = (\<forall>g s. guildStates vm g = Some s \<longrightarrow> sessionOk s)"


subsection \<open>Concrete configurations, environments and states used in examples\<close>

text \<open>The defaults of the voice manager's settings.\<close>

definition defaultVoiceConfig :: voiceConfig where
  "defaultVoiceConfig = \<lparr>maxRetries = 3, backoffBase = 1000, backoffMax = 10000\<rparr>"

definition fiveRetries :: voiceConfig where
  "fiveRetries = \<lparr>maxRetries = 5, backoffBase = 1000, backoffMax = 10000\<rparr>"

text \<open>
  Attempts: one that becomes ready, one that times out (\<open>failedAttempt\<close> with the random
  number 0, \<open>timedOut\<close> with a given one), and one whose connection reports a disconnect
  that does not recover before the attempt times out.
\<close>

definition readyAttempt :: "conn \<Rightarrow> attempt" where
  "readyAttempt c = \<lparr>handle = c, whileConnecting = [], failure = None, randomDraw = 0, whileSleeping = []\<rparr>"

definition failedAttempt :: "conn \<Rightarrow> attempt" where
  "failedAttempt c = \<lparr>handle = c, whileConnecting = [], failure = Some ''Connection ready timeout'', randomDraw = 0, whileSleeping = []\<rparr>"

definition timedOut :: "conn \<Rightarrow> real \<Rightarrow> attempt" where
  "timedOut c u = \<lparr>handle = c, whileConnecting = [], failure = Some ''Connection ready timeout'',
     randomDraw = u, whileSleeping = []\<rparr>"

definition lostAttempt :: "conn \<Rightarrow> attempt" where
  "lostAttempt c = \<lparr>handle = c, whileConnecting = [DisconnectedLost c ''g1''],
     failure = Some ''Connection ready timeout'', randomDraw = 0, whileSleeping = []\<rparr>"

definition chA :: channel where "chA = \<lparr>chanId = ''A'', chanGuild = ''g1''\<rparr>"


definition chA2 :: channel where "chA2 = \<lparr>chanId = ''A2'', chanGuild = ''g1''\<rparr>"

text \<open>
  A join that succeeds, the release of the lock, and the start of a second join for the same
  guild, to which the transport hands out the guild's connection again.
\<close>

definition rejoin :: "event list" where
  "rejoin = [JoinStarted chA 1, AttemptReady chA 1, LockReleased ''g1'', JoinStarted chA2 1]"

text \<open>The session that \<open>rejoin\<close> leads to.\<close>

definition rejoining :: GuildVoiceState where
  "rejoining = \<lparr>state = Connecting, connection = Some 1, channelId = Some ''A'', retries = 0,
     lastError = None, operationLock = True\<rparr>"

text \<open>The manager after a join of channel A, and after a following move to channel B.\<close>

definition afterJoin :: VoiceManager where
  "afterJoin = snd (join defaultVoiceConfig [readyAttempt 1] chA emptyManager)"


text \<open>A settings file with persistent mode on for the guild, and the owner leaving channel A.\<close>

definition stayOn :: settingsFile where
  "stayOn = [''g1'' \<mapsto> \<lparr>recordingEnabled = None, mode247Enabled = Some True\<rparr>]"

definition ownerLeft :: voiceUpdate where
  "ownerLeft = \<lparr>updGuild = ''g1'', oldChannelId = Some ''A'', newChannelId = None, newChannel = None\<rparr>"

section \<open>Properties of the TTS queue\<close>

subsection \<open>Rejections of \<^verbatim>\<open>enqueue\<close>\<close>

lemma sanitizeText_empty: "sanitizeText cfg [] = []"
  by (simp add: sanitizeText_def trim_def)

lemma sanitizeText_spaces: "sanitizeText cfg ''   '' = []"
  by (simp add: sanitizeText_def trim_def isSpace_def matchEveryoneHere_def matchRole_def
      matchUser_def matchChannel_def)

lemma enqueue_limited:
  "now - lastRequest q g < minRequestInterval \<Longrightarrow>
   enqueue cfg env now g rawText c q = (Inl RateLimit, q)"
  by (simp add: enqueue_def checkRateLimit_def)

lemma enqueue_empty:
  "\<not> now - lastRequest q g < minRequestInterval \<Longrightarrow> sanitizeText cfg rawText = [] \<Longrightarrow>
   enqueue cfg env now g rawText c q =
     (Inl EmptyText, q\<lparr>lastRequestTime := (lastRequestTime q)(g \<mapsto> now),
                        currentConnections := (currentConnections q)(g \<mapsto> c)\<rparr>)"
  by (simp add: enqueue_def checkRateLimit_def)

lemma ensureSubscribed_frame:
  "lastRequestTime (ensureSubscribed env g c q) = lastRequestTime q"
  "currentConnections (ensureSubscribed env g c q) = currentConnections q"
  "queues (ensureSubscribed env g c q) = queues q"
  "players (ensureSubscribed env g c q) = players q"
  "processing (ensureSubscribed env g c q) = processing q"
  by (simp_all add: ensureSubscribed_def Let_def)

lemma processQueue_begin_frame:
  "lastRequestTime (snd (processQueue_begin env g q)) = lastRequestTime q"
  "currentConnections (snd (processQueue_begin env g q)) = currentConnections q"
  by (simp_all add: processQueue_begin_def Let_def ensureSubscribed_frame
      split: option.splits list.splits)

lemma enqueuePlayer_frame:
  "lastRequestTime (enqueuePlayer env g c q) = lastRequestTime q"
  "currentConnections (enqueuePlayer env g c q) = currentConnections q"
  "queues (enqueuePlayer env g c q) = queues q"
  by (simp_all add: enqueuePlayer_def Let_def ensureSubscribed_frame)

lemma enqueuePush_frame:
  "lastRequestTime (enqueuePush cfg env now g s q) = lastRequestTime q"
  "currentConnections (enqueuePush cfg env now g s q) = currentConnections q"
  by (simp_all add: enqueuePush_def Let_def)

lemma enqueue_passed_last:
  "\<not> now - lastRequest q g < minRequestInterval \<Longrightarrow>
   lastRequestTime (snd (enqueue cfg env now g rawText c q)) = (lastRequestTime q)(g \<mapsto> now)
   \<and> currentConnections (snd (enqueue cfg env now g rawText c q)) = (currentConnections q)(g \<mapsto> c)
   \<and> fst (enqueue cfg env now g rawText c q) \<noteq> Inl RateLimit"
  by (simp add: enqueue_def checkRateLimit_def Let_def
      processQueue_begin_frame enqueuePlayer_frame enqueuePush_frame)

lemma enqueue_limited_iff:
  "fst (enqueue cfg env now g rawText c q) = Inl RateLimit
     \<longleftrightarrow> now - lastRequest q g < minRequestInterval"
  using enqueue_limited[of now q g cfg env rawText c] enqueue_passed_last[of now q g cfg env rawText c]
  by auto

lemma lastRequest_after_pass:
  assumes "fst (enqueue cfg env t1 g text1 c1 q) \<noteq> Inl RateLimit"
  shows "lastRequest (snd (enqueue cfg env t1 g text1 c1 q)) g = t1"
proof -
  from assms have "\<not> t1 - lastRequest q g < minRequestInterval"
    by (simp add: enqueue_limited_iff)
  from enqueue_passed_last[OF this, of cfg env text1 c1] show ?thesis
    by (simp add: lastRequest_def)
qed

text \<open>
  Claim C7, as amended.  Let a call of \<^verbatim>\<open>enqueue\<close> for a guild at time \<open>t1\<close> pass the
  rate-limit gate (it is accepted, or it is rejected only afterwards because its text is
  empty), and let \<open>q'\<close> be any later state in which the guild's time stamp is still the one
  that call left.  Then a call at time \<open>t2\<close> is rejected as rate-limited if and only if
  \<open>t2 - t1 < minRequestInterval\<close>, and a rate-limited call leaves the whole state, the queue
  included, as it was.
\<close>

theorem rate_limited_iff_close_to_last_pass:
  assumes "fst (enqueue cfg env t1 g text1 c1 q) \<noteq> Inl RateLimit"
    and "lastRequestTime q' g = lastRequestTime (snd (enqueue cfg env t1 g text1 c1 q)) g"
  shows "(fst (enqueue cfg env' t2 g text2 c2 q') = Inl RateLimit \<longleftrightarrow> t2 - t1 < minRequestInterval)
       \<and> (fst (enqueue cfg env' t2 g text2 c2 q') = Inl RateLimit \<longrightarrow>
            snd (enqueue cfg env' t2 g text2 c2 q') = q')"
proof -
  have "lastRequest q' g = lastRequest (snd (enqueue cfg env t1 g text1 c1 q)) g"
    using assms(2) by (simp add: lastRequest_def)
  then have l: "lastRequest q' g = t1"
    using lastRequest_after_pass[OF assms(1)] by simp
  have a: "fst (enqueue cfg env' t2 g text2 c2 q') = Inl RateLimit \<longleftrightarrow> t2 - t1 < minRequestInterval"
    using enqueue_limited_iff[of cfg env' t2 g text2 c2 q'] l by simp
  have b: "fst (enqueue cfg env' t2 g text2 c2 q') = Inl RateLimit \<longrightarrow>
            snd (enqueue cfg env' t2 g text2 c2 q') = q'"
    using enqueue_limited[of t2 q' g cfg env' text2 c2] enqueue_limited_iff[of cfg env' t2 g text2 c2 q']
    by auto
  from a b show ?thesis by blast
qed

text \<open>
  An instance: after the empty call at 5000, a call at 5150 is rejected and changes nothing,
  a call at 5200 is not rejected as rate-limited.
\<close>

theorem rate_limited_iff_close_to_last_pass_witness:
  "fst (enqueue defaultTtsConfig hmphOnly 5000 ''g1'' [] 7 afterHello) \<noteq> Inl RateLimit
   \<and> fst (enqueue defaultTtsConfig hmphOnly 5150 ''g1'' ''hi'' 7 afterEmpty) = Inl RateLimit
   \<and> snd (enqueue defaultTtsConfig hmphOnly 5150 ''g1'' ''hi'' 7 afterEmpty) = afterEmpty
   \<and> fst (enqueue defaultTtsConfig hmphOnly 5200 ''g1'' ''hi'' 7 afterEmpty) \<noteq> Inl RateLimit"
proof -
  have h: "fst (enqueue defaultTtsConfig hmphOnly 5000 ''g1'' [] 7 afterHello) \<noteq> Inl RateLimit"
    by code_simp
  have e: "lastRequestTime afterEmpty ''g1''
         = lastRequestTime (snd (enqueue defaultTtsConfig hmphOnly 5000 ''g1'' [] 7 afterHello)) ''g1''"
    by (simp add: afterEmpty_def)
  from rate_limited_iff_close_to_last_pass[OF h e, of hmphOnly 5150 "''hi''" 7]
       rate_limited_iff_close_to_last_pass[OF h e, of hmphOnly 5200 "''hi''" 7]
       h
  show ?thesis by (simp add: minRequestInterval_def)
qed

text \<open>
  Claim C7 as stated fails: the call at 1000 is accepted, the call at 5000 is rejected for its
  empty text, and the call at 5100 is rejected as rate-limited although the previous
  accepted call lies 4100 ms back.
\<close>

theorem rate_limited_after_rejected_call:
  "fst (enqueue defaultTtsConfig hmphOnly 1000 ''g1'' ''hello'' 7 emptyQueue) = Inr ()
   \<and> fst (enqueue defaultTtsConfig hmphOnly 5000 ''g1'' [] 7 afterHello) = Inl EmptyText
   \<and> fst (enqueue defaultTtsConfig hmphOnly 5100 ''g1'' ''hi'' 7 afterEmpty) = Inl RateLimit
   \<and> \<not> (5100 - 1000 < minRequestInterval)"
proof -
  have 1: "fst (enqueue defaultTtsConfig hmphOnly 1000 ''g1'' ''hello'' 7 emptyQueue) = Inr ()"
    by code_simp
  have 2: "fst (enqueue defaultTtsConfig hmphOnly 5000 ''g1'' [] 7 afterHello) = Inl EmptyText"
    by code_simp
  have 3: "fst (enqueue defaultTtsConfig hmphOnly 5100 ''g1'' ''hi'' 7 afterEmpty) = Inl RateLimit"
    by code_simp
  have 4: "\<not> (5100 - 1000 < minRequestInterval)"
    by (simp add: minRequestInterval_def)
  from 1 2 3 4 show ?thesis by blast
qed

text \<open>
  Claim C8.  \<^verbatim>\<open>enqueue\<close> with the empty text or with three blanks, when the rate limiter
  does not reject it, rejects with the empty-after-sanitization error, and the map of
  queues is as before.
\<close>

theorem enqueue_blank_rejected:
  assumes "rawText = [] \<or> rawText = ''   ''"
    and "fst (enqueue cfg env now g rawText c q) \<noteq> Inl RateLimit"
  shows "fst (enqueue cfg env now g rawText c q) = Inl EmptyText
       \<and> queues (snd (enqueue cfg env now g rawText c q)) = queues q"
proof -
  from assms(1) have s: "sanitizeText cfg rawText = []"
    using sanitizeText_empty sanitizeText_spaces by auto
  from assms(2) have p: "\<not> now - lastRequest q g < minRequestInterval"
    using enqueue_limited by fastforce
  show ?thesis
    by (simp add: enqueue_empty[OF p s])
qed

theorem enqueue_blank_rejected_witness:
  "fst (enqueue defaultTtsConfig hmphOnly 1000 ''g1'' ''   '' 7 emptyQueue) \<noteq> Inl RateLimit
   \<and> fst (enqueue defaultTtsConfig hmphOnly 1000 ''g1'' ''   '' 7 emptyQueue) = Inl EmptyText
   \<and> queues (snd (enqueue defaultTtsConfig hmphOnly 1000 ''g1'' ''   '' 7 emptyQueue))
       = queues emptyQueue"
proof -
  have h: "fst (enqueue defaultTtsConfig hmphOnly 1000 ''g1'' ''   '' 7 emptyQueue) \<noteq> Inl RateLimit"
    by (simp add: enqueue_limited_iff lastRequest_def emptyQueue_def minRequestInterval_def)
  from enqueue_blank_rejected[of "''   ''", OF _ h] h show ?thesis by simp
qed

text \<open>
  Claim C10.  When the text sanitizes to the empty string and the rate limiter lets the call
  through, \<^verbatim>\<open>enqueue\<close> rejects with the empty-text error, but the state it leaves has the
  guild's time stamp set to the time of the call and the guild's current connection set to
  the connection of the call.  Hence every call for the guild less than
  \<open>minRequestInterval\<close> later is rejected as rate-limited, and when \<^verbatim>\<open>processQueue\<close> next
  takes an item for the guild it routes the player to that connection.
\<close>

theorem empty_rejection_side_effects:
  assumes "sanitizeText cfg rawText = []"
    and "fst (enqueue cfg env now g rawText c q) \<noteq> Inl RateLimit"
  shows "fst (enqueue cfg env now g rawText c q) = Inl EmptyText
       \<and> lastRequestTime (snd (enqueue cfg env now g rawText c q)) g = Some now
       \<and> currentConnections (snd (enqueue cfg env now g rawText c q)) g = Some c
       \<and> (\<forall>env2 now2 text2 c2. now2 - now < minRequestInterval \<longrightarrow>
            fst (enqueue cfg env2 now2 g text2 c2 (snd (enqueue cfg env now g rawText c q)))
              = Inl RateLimit)
       \<and> getConnectionOrNull g (snd (enqueue cfg env now g rawText c q)) = Some c
       \<and> (\<forall>env2 item.
             fst (processQueue_begin env2 g (snd (enqueue cfg env now g rawText c q))) = Some item
             \<and> subscribeOk env2 c \<longrightarrow>
             subscriptions (snd (processQueue_begin env2 g (snd (enqueue cfg env now g rawText c q)))) g
               = Some c)"
proof -
  let ?q1 = "snd (enqueue cfg env now g rawText c q)"
  from assms(2) have p: "\<not> now - lastRequest q g < minRequestInterval"
    by (simp add: enqueue_limited_iff)
  have eq: "enqueue cfg env now g rawText c q =
     (Inl EmptyText, q\<lparr>lastRequestTime := (lastRequestTime q)(g \<mapsto> now),
                        currentConnections := (currentConnections q)(g \<mapsto> c)\<rparr>)"
    by (rule enqueue_empty[OF p assms(1)])
  have r: "fst (enqueue cfg env now g rawText c q) = Inl EmptyText" by (simp add: eq)
  have l: "lastRequestTime ?q1 g = Some now" by (simp add: eq)
  have cc: "currentConnections ?q1 g = Some c" by (simp add: eq)
  have lr: "lastRequest ?q1 g = now" using l by (simp add: lastRequest_def)
  have nxt: "\<forall>env2 now2 text2 c2. now2 - now < minRequestInterval \<longrightarrow>
            fst (enqueue cfg env2 now2 g text2 c2 ?q1) = Inl RateLimit"
    using lr by (simp add: enqueue_limited_iff)
  have gc: "getConnectionOrNull g ?q1 = Some c" using cc by (simp add: getConnectionOrNull_def)
  have pq: "\<forall>env2 item. fst (processQueue_begin env2 g ?q1) = Some item \<and> subscribeOk env2 c \<longrightarrow>
            subscriptions (snd (processQueue_begin env2 g ?q1)) g = Some c"
    using gc by (auto simp: processQueue_begin_def ensureSubscribed_def Let_def
        split: option.splits list.splits if_splits)
  from r l cc nxt gc pq show ?thesis by blast
qed

text \<open>
  An instance: a call whose text is only a broadcast mention, with connection 9, on a guild
  whose player was routed to connection 7.
\<close>

theorem empty_rejection_side_effects_witness:
  "sanitizeText defaultTtsConfig ''@everyone'' = []
   \<and> fst (enqueue defaultTtsConfig hmphOnly 5000 ''g1'' ''@everyone'' 9 oneWaiting) = Inl EmptyText
   \<and> currentConnections afterMention ''g1'' = Some 9
   \<and> fst (enqueue defaultTtsConfig hmphOnly 5100 ''g1'' ''hello'' 9 afterMention) = Inl RateLimit
   \<and> fst (processQueue_begin hmphOnly ''g1'' afterMention) = Some (Tts ''later'' (''g1'', 1000, 0))
   \<and> subscriptions oneWaiting ''g1'' = Some 7
   \<and> subscriptions (snd (processQueue_begin hmphOnly ''g1'' afterMention)) ''g1'' = Some 9"
proof -
  have s: "sanitizeText defaultTtsConfig ''@everyone'' = []"
    by code_simp
  have h: "fst (enqueue defaultTtsConfig hmphOnly 5000 ''g1'' ''@everyone'' 9 oneWaiting) \<noteq> Inl RateLimit"
    by code_simp
  have d: "fst (processQueue_begin hmphOnly ''g1'' afterMention) = Some (Tts ''later'' (''g1'', 1000, 0))"
    by code_simp
  have o: "subscribeOk hmphOnly 9" by (simp add: hmphOnly_def)
  have w: "subscriptions oneWaiting ''g1'' = Some 7" by (simp add: oneWaiting_def)
  have m: "(5100::int) - 5000 < minRequestInterval" by (simp add: minRequestInterval_def)
  from empty_rejection_side_effects[OF s h] d o w m s show ?thesis
    unfolding afterMention_def[symmetric] by blast
qed

subsection \<open>Segmentation\<close>

lemma segmentRuns_speech_run:
  assumes "\<forall>r\<in>set buffer. soundOf env r = None" and "buffer \<noteq> []"
    and "rest = [] \<or> soundOf env (hd rest) \<noteq> None"
  shows "segmentRuns env (buffer @ rest) = SegTts (joinSpace buffer) # segmentRuns env rest"
proof -
  from assms(2) obtain b bs where b: "buffer = b # bs" by (cases buffer) auto
  with assms(1) have nb: "soundOf env b = None" and nbs: "\<forall>r\<in>set bs. soundOf env r = None"
    by auto
  have t0: "takeWhile (\<lambda>r. soundOf env r = None) rest = []"
  proof (cases rest)
    case Nil
    then show ?thesis by simp
  next
    case (Cons a as)
    with assms(3) have "soundOf env a \<noteq> None" by simp
    with Cons show ?thesis by auto
  qed
  have d0: "dropWhile (\<lambda>r. soundOf env r = None) rest = rest"
  proof (cases rest)
    case Nil
    then show ?thesis by simp
  next
    case (Cons a as)
    with assms(3) have "soundOf env a \<noteq> None" by simp
    with Cons show ?thesis by auto
  qed
  have tw: "takeWhile (\<lambda>r. soundOf env r = None) (bs @ rest) = bs"
    using nbs t0 by (simp add: takeWhile_append2)
  have dw: "dropWhile (\<lambda>r. soundOf env r = None) (bs @ rest) = rest"
    using nbs d0 by (simp add: dropWhile_append2)
  show ?thesis
    by (simp add: b nb tw dw)
qed

lemma splitLoop_runs:
  "\<forall>r\<in>set buffer. soundOf env r = None \<Longrightarrow>
   fst (flush (foldl (segStep env) (out, buffer) ts)) = out @ segmentRuns env (buffer @ ts)"
proof (induction ts arbitrary: out buffer)
  case Nil
  show ?case
  proof (cases "buffer = []")
    case True
    then show ?thesis by (simp add: flush_def)
  next
    case False
    with Nil segmentRuns_speech_run[of buffer env "[]"] show ?thesis
      by (simp add: flush_def)
  qed
next
  case (Cons t ts)
  show ?case
  proof (cases "soundOf env t")
    case None
    with Cons.prems have "\<forall>r\<in>set (buffer @ [t]). soundOf env r = None" by simp
    from Cons.IH[OF this, of out] None show ?thesis
      by (simp add: segStep_def)
  next
    case (Some filePath)
    show ?thesis
    proof (cases "buffer = []")
      case True
      with Some Cons.IH[of "[]" "out @ [SegSound (normalizeToken t) filePath]"] show ?thesis
        by (simp add: segStep_def flush_def)
    next
      case False
      have "segmentRuns env (buffer @ t # ts)
            = SegTts (joinSpace buffer) # segmentRuns env (t # ts)"
        using segmentRuns_speech_run[OF Cons.prems False, of "t # ts"] Some by simp
      with False Some
        Cons.IH[of "[]" "out @ [SegTts (joinSpace buffer), SegSound (normalizeToken t) filePath]"]
      show ?thesis
        by (simp add: segStep_def flush_def)
    qed
  qed
qed

lemma splitIntoSegments_runs:
  "splitIntoSegments env sanitized = segmentRuns env (splitWs sanitized)"
  using splitLoop_runs[of "[]" env "[]" "splitWs sanitized"]
  by (simp add: splitIntoSegments_def)

lemma segmentRuns_no_sound:
  assumes "ts \<noteq> []" and "\<forall>r\<in>set ts. soundOf env r = None"
  shows "segmentRuns env ts = [SegTts (joinSpace ts)]"
  using segmentRuns_speech_run[OF assms(2) assms(1), of "[]"] by simp


lemma enqueuePush_queue:
  "queues (enqueuePush cfg env now g sanitized q) g =
     Some ((case queues q g of None \<Rightarrow> [] | Some items \<Rightarrow> items)
           @ expandSegments cfg g now 0 (segmentRuns env (splitWs sanitized)))"
  by (simp add: enqueuePush_def Let_def splitIntoSegments_runs)

lemma processQueue_begin_queue:
  assumes "queues q g = Some items" and "currentConnections q g \<noteq> None"
  shows "queues (snd (processQueue_begin env g q)) g = Some items
       \<or> (\<exists>item rest. fst (processQueue_begin env g q) = Some item \<and> items = item # rest
             \<and> queues (snd (processQueue_begin env g q)) g = Some rest)"
  using assms
  by (auto simp: processQueue_begin_def getConnectionOrNull_def Let_def ensureSubscribed_frame
      split: option.splits list.splits)

lemma enqueue_accepted_queue:
  assumes "fst (enqueue cfg env now g rawText c q) = Inr ()"
  shows "\<exists>all. all = (case queues q g of None \<Rightarrow> [] | Some items \<Rightarrow> items)
           @ expandSegments cfg g now 0 (segmentRuns env (splitWs (sanitizeText cfg rawText)))
        \<and> (queues (snd (enqueue cfg env now g rawText c q)) g = Some all
           \<or> (\<exists>item rest. all = item # rest \<and> queues (snd (enqueue cfg env now g rawText c q)) g = Some rest))"
proof -
  let ?q1 = "(snd (checkRateLimit now g q))\<lparr>currentConnections := (currentConnections (snd (checkRateLimit now g q)))(g \<mapsto> c)\<rparr>"
  let ?q3 = "enqueuePlayer env g c (enqueuePush cfg env now g (sanitizeText cfg rawText) ?q1)"
  from assms have e: "enqueue cfg env now g rawText c q = (Inr (), snd (processQueue_begin env g ?q3))"
    by (auto simp: enqueue_def Let_def split: prod.splits bool.splits if_splits)
  have q1: "queues ?q1 = queues q"
    by (simp add: checkRateLimit_def Let_def)
  have q3: "queues ?q3 g = Some ((case queues q g of None \<Rightarrow> [] | Some items \<Rightarrow> items)
           @ expandSegments cfg g now 0 (segmentRuns env (splitWs (sanitizeText cfg rawText))))"
    by (simp add: enqueuePlayer_frame enqueuePush_queue q1)
  have c3: "currentConnections ?q3 g \<noteq> None"
    by (simp add: enqueuePlayer_frame enqueuePush_frame)
  from processQueue_begin_queue[OF q3 c3, of env] show ?thesis
    unfolding e by auto
qed

lemma replaceAll_plain:
  assumes "\<And>c cs. c \<noteq> CHR ''@'' \<Longrightarrow> c \<noteq> CHR ''<'' \<Longrightarrow> m (c # cs) = None"
  shows "plainText s \<Longrightarrow> replaceAll m s = s"
  by (induction s) (auto simp: plainText_def assms)

lemma matchers_plain:
  "c \<noteq> CHR ''@'' \<Longrightarrow> c \<noteq> CHR ''<'' \<Longrightarrow> matchEveryoneHere (c # cs) = None"
  "c \<noteq> CHR ''@'' \<Longrightarrow> c \<noteq> CHR ''<'' \<Longrightarrow> matchRole (c # cs) = None"
  "c \<noteq> CHR ''@'' \<Longrightarrow> c \<noteq> CHR ''<'' \<Longrightarrow> matchUser (c # cs) = None"
  "c \<noteq> CHR ''@'' \<Longrightarrow> c \<noteq> CHR ''<'' \<Longrightarrow> matchChannel (c # cs) = None"
  by (auto simp: matchEveryoneHere_def matchRole_def matchUser_def matchChannel_def)

lemma trim_id:
  assumes "s \<noteq> []" and "\<not> isSpace (hd s)" and "\<not> isSpace (last s)"
  shows "trim s = s"
proof -
  from assms(1,2) have a: "dropWhile isSpace s = s" by (cases s) auto
  from assms(1,3) have b: "dropWhile isSpace (rev s) = rev s"
    by (cases "rev s") (auto simp: hd_rev[symmetric])
  show ?thesis by (simp add: trim_def a b)
qed

lemma splitWsAux_tokens:
  "(\<forall>c\<in>set cur. \<not> isSpace c) \<Longrightarrow> \<forall>w\<in>set (splitWsAux cur s). tokenOk w \<and> set w \<subseteq> set cur \<union> set s"
proof (induction s arbitrary: cur)
  case Nil
  then show ?case by (auto simp: tokenOk_def)
next
  case (Cons c cs)
  show ?case
  proof (cases "isSpace c")
    case True
    from Cons.IH[of "[]"] have "\<forall>w\<in>set (splitWsAux [] cs). tokenOk w \<and> set w \<subseteq> set cs" by simp
    with True Cons.prems show ?thesis by (auto simp: tokenOk_def)
  next
    case False
    with Cons.prems have "\<forall>c'\<in>set (cur @ [c]). \<not> isSpace c'" by simp
    from Cons.IH[OF this] False show ?thesis by auto
  qed
qed

lemma joinSpace_length_Cons: "length (joinSpace (w # ws)) \<le> length w + 1 + length (joinSpace ws)"
  by (cases ws) auto

lemma splitWsAux_length: "length (joinSpace (splitWsAux cur s)) \<le> length cur + length s"
proof (induction s arbitrary: cur)
  case Nil
  then show ?case by simp
next
  case (Cons c cs)
  show ?case
  proof (cases "isSpace c")
    case True
    show ?thesis
    proof (cases "cur = []")
      case True
      with \<open>isSpace c\<close> Cons.IH[of "[]"] show ?thesis by simp
    next
      case False
      with \<open>isSpace c\<close> Cons.IH[of "[]"] joinSpace_length_Cons[of cur "splitWsAux [] cs"]
      show ?thesis by simp
    qed
  next
    case False
    with Cons.IH[of "cur @ [c]"] show ?thesis by simp
  qed
qed

lemma joinSpace_tokens:
  "ws \<noteq> [] \<Longrightarrow> \<forall>w\<in>set ws. tokenOk w \<Longrightarrow>
   joinSpace ws \<noteq> [] \<and> hd (joinSpace ws) = hd (hd ws) \<and> last (joinSpace ws) = last (last ws)"
  by (induction ws rule: joinSpace.induct) (auto simp: tokenOk_def)

lemma joinSpace_chars: "set (joinSpace ws) \<subseteq> (\<Union>w\<in>set ws. set w) \<union> {CHR '' ''}"
  by (induction ws rule: joinSpace.induct) auto

lemma sanitizeText_length:
  "sanitizeText cfg rawText \<noteq> [] \<Longrightarrow> int (length (sanitizeText cfg rawText)) \<le> maxChars cfg"
  by (auto simp: sanitizeText_def Let_def split: if_splits)

lemma sanitizeText_plain_tokens:
  assumes "plainText s" and "splitWs s \<noteq> []" and "int (length s) \<le> maxChars cfg"
  shows "sanitizeText cfg (joinSpace (splitWs s)) = joinSpace (splitWs s)"
proof -
  let ?j = "joinSpace (splitWs s)"
  have tok: "\<forall>w\<in>set (splitWs s). tokenOk w \<and> set w \<subseteq> set s"
    using splitWsAux_tokens[of "[]" s] by (simp add: splitWs_def)
  have "set ?j \<subseteq> set s \<union> {CHR '' ''}"
    using joinSpace_chars[of "splitWs s"] tok by auto
  with assms(1) have pl: "plainText ?j" by (auto simp: plainText_def)
  have r: "replaceAll matchChannel (replaceAll matchUser
            (replaceAll matchRole (replaceAll matchEveryoneHere ?j))) = ?j"
    using pl by (simp add: replaceAll_plain matchers_plain)
  from joinSpace_tokens[OF assms(2)] tok
  have ne: "?j \<noteq> []" and h: "hd ?j = hd (hd (splitWs s))" and l: "last ?j = last (last (splitWs s))"
    by auto
  from assms(2) tok have "tokenOk (hd (splitWs s))" and "tokenOk (last (splitWs s))" by auto
  then have "\<not> isSpace (hd ?j)" and "\<not> isSpace (last ?j)"
    unfolding h l by (auto simp: tokenOk_def)
  with ne have t: "trim ?j = ?j" by (simp add: trim_id)
  have "length ?j \<le> length s"
    using splitWsAux_length[of "[]" s] by (simp add: splitWs_def)
  with assms(3) have "\<not> int (length ?j) > maxChars cfg" by simp
  then show ?thesis
    by (simp add: sanitizeText_def r t)
qed

text \<open>
  Claim C6, as amended.  \<^verbatim>\<open>splitIntoSegments\<close> yields exactly the segments of the
  specification: one speech segment for every maximal run of tokens that are not sounds,
  holding the tokens rejoined with single blanks, one sound segment for every sound token, in
  the order of the input.  \<^verbatim>\<open>enqueue\<close> appends their items to the guild's queue in that
  order, but it passes the text of a speech segment through the sanitizer once more and
  leaves the item out when nothing remains.  So \<open>N > 0\<close> tokens that are not sounds give one
  speech item holding the rejoined and re-sanitized text, or no item; they give exactly the
  item with the rejoined text when the sanitized text is within \<open>maxChars\<close> and contains
  neither \<^verbatim>\<open>@\<close> nor \<^verbatim>\<open><\<close>.
\<close>

theorem segments_are_maximal_runs:
  "splitIntoSegments env sanitized = segmentRuns env (splitWs sanitized)
   \<and> queues (enqueuePush cfg env now g sanitized q) g =
       Some ((case queues q g of None \<Rightarrow> [] | Some items \<Rightarrow> items)
             @ expandSegments cfg g now 0 (segmentRuns env (splitWs sanitized)))
   \<and> (splitWs sanitized \<noteq> [] \<and> (\<forall>t\<in>set (splitWs sanitized). soundOf env t = None) \<longrightarrow>
        expandSegments cfg g now 0 (splitIntoSegments env sanitized) =
          (if sanitizeText cfg (joinSpace (splitWs sanitized)) \<noteq> []
           then [Tts (sanitizeText cfg (joinSpace (splitWs sanitized))) (g, now, 0)] else []))
   \<and> (splitWs sanitized \<noteq> [] \<and> (\<forall>t\<in>set (splitWs sanitized). soundOf env t = None)
        \<and> plainText sanitized \<and> int (length sanitized) \<le> maxChars cfg \<longrightarrow>
        expandSegments cfg g now 0 (splitIntoSegments env sanitized) =
          [Tts (joinSpace (splitWs sanitized)) (g, now, 0)])"
proof -
  have a: "splitIntoSegments env sanitized = segmentRuns env (splitWs sanitized)"
    by (rule splitIntoSegments_runs)
  have b: "queues (enqueuePush cfg env now g sanitized q) g =
       Some ((case queues q g of None \<Rightarrow> [] | Some items \<Rightarrow> items)
             @ expandSegments cfg g now 0 (segmentRuns env (splitWs sanitized)))"
    by (rule enqueuePush_queue)
  have c: "splitWs sanitized \<noteq> [] \<and> (\<forall>t\<in>set (splitWs sanitized). soundOf env t = None) \<longrightarrow>
        expandSegments cfg g now 0 (splitIntoSegments env sanitized) =
          (if sanitizeText cfg (joinSpace (splitWs sanitized)) \<noteq> []
           then [Tts (sanitizeText cfg (joinSpace (splitWs sanitized))) (g, now, 0)] else [])"
    by (simp add: a segmentRuns_no_sound Let_def)
  have d: "splitWs sanitized \<noteq> [] \<and> (\<forall>t\<in>set (splitWs sanitized). soundOf env t = None)
        \<and> plainText sanitized \<and> int (length sanitized) \<le> maxChars cfg \<longrightarrow>
        expandSegments cfg g now 0 (splitIntoSegments env sanitized) =
          [Tts (joinSpace (splitWs sanitized)) (g, now, 0)]"
  proof (intro impI, elim conjE)
    assume ne: "splitWs sanitized \<noteq> []"
      and ns: "\<forall>t\<in>set (splitWs sanitized). soundOf env t = None"
      and pl: "plainText sanitized" and le: "int (length sanitized) \<le> maxChars cfg"
    have j: "joinSpace (splitWs sanitized) \<noteq> []"
      using joinSpace_tokens[OF ne] splitWsAux_tokens[of "[]" sanitized]
      by (simp add: splitWs_def)
    show "expandSegments cfg g now 0 (splitIntoSegments env sanitized) =
          [Tts (joinSpace (splitWs sanitized)) (g, now, 0)]"
      using ne ns j by (simp add: a segmentRuns_no_sound sanitizeText_plain_tokens[OF pl ne le])
  qed
  from a b c d show ?thesis by blast
qed

text \<open>
  Instances: three plain words give one speech item; \<^verbatim>\<open>a hmph ok\<close> gives speech, sound,
  speech in this order.
\<close>

theorem segments_are_maximal_runs_witness:
  "splitWs ''one two three'' \<noteq> []
   \<and> soundOf hmphOnly ''one'' = None \<and> soundOf hmphOnly ''two'' = None
   \<and> soundOf hmphOnly ''three'' = None
   \<and> plainText ''one two three'' \<and> int (length ''one two three'') \<le> maxChars defaultTtsConfig
   \<and> expandSegments defaultTtsConfig ''g1'' 1000 0 (splitIntoSegments hmphOnly ''one two three'')
       = [Tts ''one two three'' (''g1'', 1000, 0)]
   \<and> splitIntoSegments hmphOnly ''a hmph ok''
       = [SegTts ''a'', SegSound ''hmph'' ''sounds/hmph.wav'', SegTts ''ok'']
   \<and> queues (enqueuePush defaultTtsConfig hmphOnly 1000 ''g1'' ''a hmph ok'' emptyQueue) ''g1''
       = Some [Tts ''a'' (''g1'', 1000, 0), Sound ''hmph'' ''sounds/hmph.wav'' (''g1'', 1000, 1),
               Tts ''ok'' (''g1'', 1000, 2)]"
proof -
  note A = segments_are_maximal_runs[of hmphOnly "''one two three''" defaultTtsConfig 1000 "''g1''" emptyQueue]
  note B = segments_are_maximal_runs[of hmphOnly "''a hmph ok''" defaultTtsConfig 1000 "''g1''" emptyQueue]
  have t: "splitWs ''one two three'' = [''one'', ''two'', ''three'']" by code_simp
  have ne: "splitWs ''one two three'' \<noteq> []" unfolding t by simp
  have n: "\<forall>t\<in>set (splitWs ''one two three''). soundOf hmphOnly t = None"
    unfolding t by code_simp
  have p: "plainText ''one two three''" by (simp add: plainText_def)
  have m: "int (length ''one two three'') \<le> maxChars defaultTtsConfig"
    by (simp add: defaultTtsConfig_def)
  have j: "joinSpace (splitWs ''one two three'') = ''one two three''" unfolding t by simp
  from A ne n p m
  have "expandSegments defaultTtsConfig ''g1'' 1000 0 (splitIntoSegments hmphOnly ''one two three'')
       = [Tts (joinSpace (splitWs ''one two three'')) (''g1'', 1000, 0)]" by blast
  then have e1: "expandSegments defaultTtsConfig ''g1'' 1000 0 (splitIntoSegments hmphOnly ''one two three'')
       = [Tts ''one two three'' (''g1'', 1000, 0)]" unfolding j .
  have r: "segmentRuns hmphOnly (splitWs ''a hmph ok'')
       = [SegTts ''a'', SegSound ''hmph'' ''sounds/hmph.wav'', SegTts ''ok'']" by code_simp
  have x: "expandSegments defaultTtsConfig ''g1'' 1000 0
             [SegTts ''a'', SegSound ''hmph'' ''sounds/hmph.wav'', SegTts ''ok'']
       = [Tts ''a'' (''g1'', 1000, 0), Sound ''hmph'' ''sounds/hmph.wav'' (''g1'', 1000, 1),
               Tts ''ok'' (''g1'', 1000, 2)]" by code_simp
  have q: "queues emptyQueue ''g1'' = None" by (simp add: emptyQueue_def)
  from B have "splitIntoSegments hmphOnly ''a hmph ok'' = segmentRuns hmphOnly (splitWs ''a hmph ok'')"
    by blast
  then have s2: "splitIntoSegments hmphOnly ''a hmph ok''
       = [SegTts ''a'', SegSound ''hmph'' ''sounds/hmph.wav'', SegTts ''ok'']" unfolding r .
  from B have "queues (enqueuePush defaultTtsConfig hmphOnly 1000 ''g1'' ''a hmph ok'' emptyQueue) ''g1''
       = Some ((case queues emptyQueue ''g1'' of None \<Rightarrow> [] | Some items \<Rightarrow> items)
           @ expandSegments defaultTtsConfig ''g1'' 1000 0 (segmentRuns hmphOnly (splitWs ''a hmph ok'')))"
    by blast
  then have q2: "queues (enqueuePush defaultTtsConfig hmphOnly 1000 ''g1'' ''a hmph ok'' emptyQueue) ''g1''
       = Some [Tts ''a'' (''g1'', 1000, 0), Sound ''hmph'' ''sounds/hmph.wav'' (''g1'', 1000, 1),
               Tts ''ok'' (''g1'', 1000, 2)]"
    unfolding r x q by simp
  have n3: "soundOf hmphOnly ''one'' = None \<and> soundOf hmphOnly ''two'' = None
       \<and> soundOf hmphOnly ''three'' = None"
    using n unfolding t by simp
  from ne n3 p m e1 s2 q2 show ?thesis by blast
qed

text \<open>
  Claim C6 as stated fails.  The sanitizer removes \<^verbatim>\<open>@here\<close> from the text
  \<^verbatim>\<open>@every@hereone\<close> and returns \<^verbatim>\<open>@everyone\<close>: one token, not a sound.  \<^verbatim>\<open>enqueue\<close>
  accepts the call and queues no item, because the second sanitization of the speech segment
  leaves nothing.
\<close>

theorem mention_left_by_sanitizer_is_dropped:
  "sanitizeText defaultTtsConfig ''@every@hereone'' = ''@everyone''
   \<and> splitWs ''@everyone'' = [''@everyone'']
   \<and> soundOf hmphOnly ''@everyone'' = None
   \<and> fst (enqueue defaultTtsConfig hmphOnly 1000 ''g1'' ''@every@hereone'' 7 emptyQueue) = Inr ()
   \<and> queues (snd (enqueue defaultTtsConfig hmphOnly 1000 ''g1'' ''@every@hereone'' 7 emptyQueue)) ''g1''
       = Some []"
proof -
  have 1: "sanitizeText defaultTtsConfig ''@every@hereone'' = ''@everyone''" by code_simp
  have 2: "splitWs ''@everyone'' = [''@everyone'']" by code_simp
  have 3: "soundOf hmphOnly ''@everyone'' = None" by code_simp
  have 4: "fst (enqueue defaultTtsConfig hmphOnly 1000 ''g1'' ''@every@hereone'' 7 emptyQueue) = Inr ()"
    by code_simp
  have 5: "queues (snd (enqueue defaultTtsConfig hmphOnly 1000 ''g1'' ''@every@hereone'' 7 emptyQueue)) ''g1''
       = Some []" by code_simp
  from 1 2 3 4 5 show ?thesis by blast
qed

section \<open>Properties of the voice manager\<close>

subsection \<open>What the pieces of the operations change\<close>

lemma modifyState_simps:
  "guildStates (modifyState g f vm) g' = (if g' = g then map_option f (guildStates vm g) else guildStates vm g')"
  "destroyed (modifyState g f vm) = destroyed vm"
  "handlers (modifyState g f vm) = handlers vm"
  "locksTaken (modifyState g f vm) = locksTaken vm"
  "sleeps (modifyState g f vm) = sleeps vm"
  by (simp_all add: modifyState_def)

lemma destroyConn_simps:
  "guildStates (destroyConn c vm) = guildStates vm"
  "destroyed (destroyConn c vm) = insert c (destroyed vm)"
  "handlers (destroyConn c vm) = handlers vm"
  "locksTaken (destroyConn c vm) = locksTaken vm"
  "sleeps (destroyConn c vm) = sleeps vm"
  by (simp_all add: destroyConn_def)

lemma destroyCurrent_simps:
  "guildStates (destroyCurrent g vm) = guildStates vm"
  "handlers (destroyCurrent g vm) = handlers vm"
  "locksTaken (destroyCurrent g vm) = locksTaken vm"
  "sleeps (destroyCurrent g vm) = sleeps vm"
  by (simp_all add: destroyCurrent_def destroyConn_simps split: option.splits)

lemma getOrCreateState_simps:
  "guildStates (getOrCreateState g vm) g' =
     (if g' = g \<and> guildStates vm g = None then Some initialState else guildStates vm g')"
  "destroyed (getOrCreateState g vm) = destroyed vm"
  "handlers (getOrCreateState g vm) = handlers vm"
  "locksTaken (getOrCreateState g vm) = locksTaken vm"
  "sleeps (getOrCreateState g vm) = sleeps vm"
  by (simp_all add: getOrCreateState_def)

lemma setupConnectionHandlers_simps:
  "guildStates (setupConnectionHandlers c g vm) = guildStates vm"
  "destroyed (setupConnectionHandlers c g vm) = destroyed vm"
  "handlers (setupConnectionHandlers c g vm) = (c, g) # handlers vm"
  "locksTaken (setupConnectionHandlers c g vm) = locksTaken vm"
  "sleeps (setupConnectionHandlers c g vm) = sleeps vm"
  by (simp_all add: setupConnectionHandlers_def)

lemma takeLock_simps:
  "guildStates (takeLock g vm) g' =
     (if g' = g then map_option (\<lambda>s. s\<lparr>operationLock := True\<rparr>) (guildStates vm g) else guildStates vm g')"
  "destroyed (takeLock g vm) = destroyed vm"
  "handlers (takeLock g vm) = handlers vm"
  "locksTaken (takeLock g vm) = (locksTaken vm)(g := locksTaken vm g + 1)"
  "sleeps (takeLock g vm) = sleeps vm"
  by (simp_all add: takeLock_def modifyState_def)

lemma releaseLock_simps:
  "guildStates (releaseLock g vm) g' =
     (if g' = g then map_option (\<lambda>s. s\<lparr>operationLock := False\<rparr>) (guildStates vm g) else guildStates vm g')"
  "destroyed (releaseLock g vm) = destroyed vm"
  "handlers (releaseLock g vm) = handlers vm"
  "locksTaken (releaseLock g vm) = locksTaken vm"
  "sleeps (releaseLock g vm) = sleeps vm"
  by (simp_all add: releaseLock_def modifyState_def)

lemma deliver_guildStates:
  "guildStates (deliver sig vm) g' =
     (if g' = signalGuild sig \<and> (case sig of Destroyed c g \<Rightarrow> (c, g) \<in> set (handlers vm)
                                      | DisconnectedLost c g \<Rightarrow> (c, g) \<in> set (handlers vm))
      then map_option resetSession (guildStates vm g') else guildStates vm g')"
  by (cases sig) (simp_all add: onDestroyed_def onDisconnectedLost_def modifyState_simps destroyConn_simps)

lemma deliver_frame:
  "handlers (deliver sig vm) = handlers vm"
  "locksTaken (deliver sig vm) = locksTaken vm"
  "sleeps (deliver sig vm) = sleeps vm"
  "destroyed vm \<subseteq> destroyed (deliver sig vm)"
  by (cases sig; auto simp: onDestroyed_def onDisconnectedLost_def modifyState_simps destroyConn_simps)+

lemma deliverAll_Nil: "deliverAll [] vm = vm"
  by (simp add: deliverAll_def)

lemma deliverAll_Cons: "deliverAll (s # sigs) vm = deliverAll sigs (deliver s vm)"
  by (simp add: deliverAll_def)

lemma deliverAll_frame:
  "handlers (deliverAll sigs vm) = handlers vm"
  "locksTaken (deliverAll sigs vm) = locksTaken vm"
  "sleeps (deliverAll sigs vm) = sleeps vm"
  "destroyed vm \<subseteq> destroyed (deliverAll sigs vm)"
proof (induction sigs arbitrary: vm)
  case Nil
  { case 1 show ?case by (simp add: deliverAll_Nil) }
  { case 2 show ?case by (simp add: deliverAll_Nil) }
  { case 3 show ?case by (simp add: deliverAll_Nil) }
  { case 4 show ?case by (simp add: deliverAll_Nil) }
next
  case (Cons s sigs)
  { case 1 show ?case by (simp add: deliverAll_Cons Cons.IH deliver_frame) }
  { case 2 show ?case by (simp add: deliverAll_Cons Cons.IH deliver_frame) }
  { case 3 show ?case by (simp add: deliverAll_Cons Cons.IH deliver_frame) }
  { case 4 show ?case using Cons.IH(4)[of "deliver s vm"] deliver_frame(4)[of vm s]
      by (auto simp: deliverAll_Cons) }
qed

lemma deliver_hasSession:
  "guildStates vm g \<noteq> None \<Longrightarrow> guildStates (deliver s vm) g \<noteq> None"
  by (auto simp: deliver_guildStates)

lemma deliverAll_hasSession:
  "guildStates vm g \<noteq> None \<Longrightarrow> guildStates (deliverAll sigs vm) g \<noteq> None"
proof (induction sigs arbitrary: vm)
  case Nil
  then show ?case by (simp add: deliverAll_Nil)
next
  case (Cons s sigs)
  from Cons.IH[OF deliver_hasSession[OF Cons.prems]] show ?case
    by (simp add: deliverAll_Cons)
qed

lemma deliverAll_other_guild:
  "\<forall>s\<in>set sigs. signalGuild s \<noteq> g \<Longrightarrow> guildStates (deliverAll sigs vm) g = guildStates vm g"
  by (induction sigs arbitrary: vm) (auto simp: deliverAll_Nil deliverAll_Cons deliver_guildStates)

lemma begin_simps:
  "guildStates (joinUnlockedOnce_begin ch c vm) g' =
     (if g' = chanGuild ch then map_option (\<lambda>s. s\<lparr>state := Connecting\<rparr>) (guildStates vm g')
      else guildStates vm g')"
  "destroyed (joinUnlockedOnce_begin ch c vm) = destroyed vm"
  "handlers (joinUnlockedOnce_begin ch c vm) = (c, chanGuild ch) # handlers vm"
  "locksTaken (joinUnlockedOnce_begin ch c vm) = locksTaken vm"
  "sleeps (joinUnlockedOnce_begin ch c vm) = sleeps vm"
  by (auto simp: joinUnlockedOnce_begin_def setupConnectionHandlers_simps modifyState_simps)

lemma ready_simps:
  "guildStates (joinUnlockedOnce_ready ch c vm) g' =
     (if g' = chanGuild ch
      then map_option (\<lambda>s. s\<lparr>connection := Some c, channelId := Some (chanId ch), state := Ready,
               retries := 0, lastError := None\<rparr>) (guildStates vm g')
      else guildStates vm g')"
  "destroyed (joinUnlockedOnce_ready ch c vm) = destroyed vm"
  "handlers (joinUnlockedOnce_ready ch c vm) = handlers vm"
  "locksTaken (joinUnlockedOnce_ready ch c vm) = locksTaken vm"
  "sleeps (joinUnlockedOnce_ready ch c vm) = sleeps vm"
  by (auto simp: joinUnlockedOnce_ready_def modifyState_simps)

lemma joinCatch_session:
  assumes "guildStates vm (chanGuild ch) = Some s"
  shows "fst (joinCatch cfg ch err r vm) = (int (retries s) < maxRetries cfg)"
    and "guildStates (snd (joinCatch cfg ch err r vm)) (chanGuild ch) =
           Some (if int (retries s) < maxRetries cfg
                 then s\<lparr>lastError := Some err, connection := None, channelId := None,
                        retries := retries s + 1, state := Backoff\<rparr>
                 else s\<lparr>lastError := Some err, connection := None, channelId := None,
                        retries := 0, state := Idle\<rparr>)"
    and "sleeps (snd (joinCatch cfg ch err r vm)) (chanGuild ch) =
           (if int (retries s) < maxRetries cfg
            then sleeps vm (chanGuild ch) @ [calculateBackoff cfg r (retries s + 1)]
            else sleeps vm (chanGuild ch))"
    and "destroyed (snd (joinCatch cfg ch err r vm)) =
           (case connection s of None \<Rightarrow> destroyed vm | Some c \<Rightarrow> insert c (destroyed vm))"
  using assms
  by (auto simp: joinCatch_def Let_def modifyState_simps destroyCurrent_simps destroyCurrent_def
      destroyConn_simps split: option.splits)

lemma joinCatch_frame:
  "handlers (snd (joinCatch cfg ch err r vm)) = handlers vm"
  "locksTaken (snd (joinCatch cfg ch err r vm)) = locksTaken vm"
  "destroyed vm \<subseteq> destroyed (snd (joinCatch cfg ch err r vm))"
  "g' \<noteq> chanGuild ch \<Longrightarrow> guildStates (snd (joinCatch cfg ch err r vm)) g' = guildStates vm g'"
  "g' \<noteq> chanGuild ch \<Longrightarrow> sleeps (snd (joinCatch cfg ch err r vm)) g' = sleeps vm g'"
  by (auto simp: joinCatch_def Let_def modifyState_simps destroyCurrent_simps destroyCurrent_def
      destroyConn_simps split: option.splits)

lemma retries_Cons_ready:
  "failure a = None \<Longrightarrow>
   joinUnlockedWithRetries cfg (a # env) ch vm =
     (Resolved (handle a),
      joinUnlockedOnce_ready ch (handle a)
        (deliverAll (whileConnecting a) (joinUnlockedOnce_begin ch (handle a) vm)))"
  by (simp add: Let_def)

lemma retries_Cons_failed:
  "failure a = Some err \<Longrightarrow>
   joinUnlockedWithRetries cfg (a # env) ch vm =
     (if fst (joinCatch cfg ch err (randomDraw a)
                (deliverAll (whileConnecting a) (joinUnlockedOnce_begin ch (handle a) vm)))
      then joinUnlockedWithRetries cfg env ch
             (deliverAll (whileSleeping a)
                (snd (joinCatch cfg ch err (randomDraw a)
                  (deliverAll (whileConnecting a) (joinUnlockedOnce_begin ch (handle a) vm)))))
      else (Rejected err,
            snd (joinCatch cfg ch err (randomDraw a)
                  (deliverAll (whileConnecting a) (joinUnlockedOnce_begin ch (handle a) vm)))))"
  by (simp add: Let_def split: prod.splits bool.splits)




lemma quietFor_Cons:
  "quietFor g (a # env) \<longleftrightarrow>
     (\<forall>s\<in>set (whileConnecting a). signalGuild s \<noteq> g) \<and> (\<forall>s\<in>set (whileSleeping a). signalGuild s \<noteq> g)
     \<and> quietFor g env"
  by (auto simp: quietFor_def list_all_iff)

lemma retries_quiet:
  assumes "quietFor (chanGuild ch) env" and "guildStates vm (chanGuild ch) = Some s"
  shows "fst (joinUnlockedWithRetries cfg env ch vm) = retryOutcome (nat (maxRetries cfg) - retries s) env
       \<and> sleeps (snd (joinUnlockedWithRetries cfg env ch vm)) (chanGuild ch)
           = sleeps vm (chanGuild ch) @ backoffs cfg (retries s) env"
  using assms
proof (induction env arbitrary: vm s)
  case Nil
  then show ?case by simp
next
  case (Cons a env)
  let ?g = "chanGuild ch"
  let ?vm1 = "deliverAll (whileConnecting a) (joinUnlockedOnce_begin ch (handle a) vm)"
  from Cons.prems(1) have q1: "\<forall>x\<in>set (whileConnecting a). signalGuild x \<noteq> ?g"
    and q2: "\<forall>x\<in>set (whileSleeping a). signalGuild x \<noteq> ?g" and q3: "quietFor ?g env"
    by (simp_all add: quietFor_Cons)
  have s1: "guildStates ?vm1 ?g = Some (s\<lparr>state := Connecting\<rparr>)"
    by (simp add: deliverAll_other_guild[OF q1] begin_simps Cons.prems(2))
  have sl1: "sleeps ?vm1 = sleeps vm"
    by (simp add: deliverAll_frame begin_simps)
  show ?case
  proof (cases "failure a")
    case None
    then show ?thesis
      by (simp add: retries_Cons_ready ready_simps deliverAll_frame begin_simps
          del: joinUnlockedWithRetries.simps)
  next
    case (Some err)
    let ?c = "joinCatch cfg ch err (randomDraw a) ?vm1"
    have f: "fst ?c = (int (retries s) < maxRetries cfg)"
      using joinCatch_session(1)[OF s1, of cfg err "randomDraw a"] by simp
    show ?thesis
    proof (cases "int (retries s) < maxRetries cfg")
      case True
      let ?vm2 = "deliverAll (whileSleeping a) (snd ?c)"
      let ?s2 = "s\<lparr>state := Connecting, lastError := Some err, connection := None, channelId := None,
                        retries := retries s + 1, state := Backoff\<rparr>"
      have "guildStates (snd ?c) ?g = Some ?s2"
        using joinCatch_session(2)[OF s1, of cfg err "randomDraw a"] True by simp
      then have s2: "guildStates ?vm2 ?g = Some ?s2"
        by (simp add: deliverAll_other_guild[OF q2])
      have sl2: "sleeps ?vm2 ?g = sleeps vm ?g @ [calculateBackoff cfg (randomDraw a) (retries s + 1)]"
        using joinCatch_session(3)[OF s1, of cfg err "randomDraw a"] True
        by (simp add: deliverAll_frame begin_simps)
      from True obtain m where m: "nat (maxRetries cfg) - retries s = Suc m"
        and m': "nat (maxRetries cfg) - Suc (retries s) = m"
        by (cases "nat (maxRetries cfg) - retries s") auto
      from Cons.IH[OF q3 s2] True Some f show ?thesis
        by (simp add: retries_Cons_failed m m' sl2 del: joinUnlockedWithRetries.simps)
    next
      case False
      then have z: "nat (maxRetries cfg) - retries s = 0" by auto
      have "sleeps (snd ?c) ?g = sleeps vm ?g"
        using joinCatch_session(3)[OF s1, of cfg err "randomDraw a"] False
        by (simp add: deliverAll_frame begin_simps)
      with False Some f show ?thesis
        by (simp add: retries_Cons_failed z del: joinUnlockedWithRetries.simps)
    qed
  qed
qed



lemma retryOutcome_resolved:
  "retryOutcome n env = Resolved c \<Longrightarrow>
   \<exists>i\<le>n. i < length env \<and> failure (env ! i) = None \<and> handle (env ! i) = c
         \<and> (\<forall>j<i. failure (env ! j) \<noteq> None)"
proof (induction n env rule: retryOutcome.induct)
  case (1 n)
  then show ?case by simp
next
  case (2 n a env)
  show ?case
  proof (cases "failure a")
    case None
    with 2(2) show ?thesis by (intro exI[of _ 0]) simp
  next
    case (Some err)
    show ?thesis
    proof (cases n)
      case 0
      with Some 2(2) show ?thesis by simp
    next
      case (Suc m)
      with Some 2(2) have "retryOutcome m env = Resolved c" by simp
      from 2(1)[OF Some Suc this] obtain i where i: "i \<le> m" "i < length env"
        "failure (env ! i) = None" "handle (env ! i) = c" "\<forall>j<i. failure (env ! j) \<noteq> None"
        by blast
      show ?thesis
      proof (intro exI[of _ "Suc i"] conjI allI impI)
        show "Suc i \<le> n" using i(1) Suc by simp
        show "Suc i < length (a # env)" using i(2) by simp
        show "failure ((a # env) ! Suc i) = None" using i(3) by simp
        show "handle ((a # env) ! Suc i) = c" using i(4) by simp
        fix j assume "j < Suc i"
        then show "failure ((a # env) ! j) \<noteq> None"
          using i(5) Some by (cases j) auto
      qed
    qed
  qed
qed

lemma getOrCreateState_present:
  "guildStates vm g \<noteq> None \<Longrightarrow> getOrCreateState g vm = vm"
  by (auto simp: getOrCreateState_def)

lemma acquireLock_free:
  assumes "\<not> lockHeld g (getOrCreateState g vm)"
  shows "acquireLock g operation vm =
     (case fst (operation (takeLock g (getOrCreateState g vm))) of
        Pending \<Rightarrow> (Pending, snd (operation (takeLock g (getOrCreateState g vm))))
      | Resolved x \<Rightarrow> (Resolved x, releaseLock g (snd (operation (takeLock g (getOrCreateState g vm)))))
      | Rejected e \<Rightarrow> (Rejected e, releaseLock g (snd (operation (takeLock g (getOrCreateState g vm))))))"
  using assms
  by (simp add: acquireLock_def Let_def split: prod.splits completion.splits)

lemma acquireLock_held:
  "lockHeld g (getOrCreateState g vm) \<Longrightarrow> acquireLock g operation vm = (Pending, getOrCreateState g vm)"
  by (simp add: acquireLock_def Let_def)

lemma locked_session:
  "\<exists>s. guildStates (takeLock g (getOrCreateState g vm)) g = Some s"
  by (auto simp: takeLock_simps getOrCreateState_simps)

lemma joinStart_eq: "joinStart g vm = takeLock g (getOrCreateState g vm)"
  unfolding joinStart_def using locked_session[of g vm]
  by (intro getOrCreateState_present) auto

lemma join_free:
  assumes "\<not> lockHeld (chanGuild ch) (getOrCreateState (chanGuild ch) vm)"
  shows "join cfg env ch vm =
     (case fst (joinUnlockedWithRetries cfg env ch (joinStart (chanGuild ch) vm)) of
        Pending \<Rightarrow> (Pending, snd (joinUnlockedWithRetries cfg env ch (joinStart (chanGuild ch) vm)))
      | Resolved x \<Rightarrow> (Resolved x, releaseLock (chanGuild ch)
                          (snd (joinUnlockedWithRetries cfg env ch (joinStart (chanGuild ch) vm))))
      | Rejected e \<Rightarrow> (Rejected e, releaseLock (chanGuild ch)
                          (snd (joinUnlockedWithRetries cfg env ch (joinStart (chanGuild ch) vm)))))"
  unfolding join_def joinStart_def by (rule acquireLock_free[OF assms])


lemma atRest_free: "atRest g vm \<Longrightarrow> \<not> lockHeld g (getOrCreateState g vm)"
  by (auto simp: atRest_def lockHeld_def getOrCreateState_simps initialState_def split: option.splits)

lemma atRest_joinStart:
  "atRest g vm \<Longrightarrow> \<exists>s. guildStates (joinStart g vm) g = Some s \<and> retries s = 0"
  by (auto simp: joinStart_eq atRest_def takeLock_simps getOrCreateState_simps initialState_def
      split: option.splits)






lemma move_held:
  "lockHeld (chanGuild ch) (getOrCreateState (chanGuild ch) vm) \<Longrightarrow> fst (move cfg env ch vm) = Pending"
  by (simp add: move_def acquireLock_held)

lemma backoffs_nth:
  "allFail env \<Longrightarrow> n < length env \<Longrightarrow> int (r + n) < maxRetries cfg \<Longrightarrow>
   n < length (backoffs cfg r env)
   \<and> backoffs cfg r env ! n = calculateBackoff cfg (randomDraw (env ! n)) (r + n + 1)"
proof (induction env arbitrary: r n)
  case Nil
  then show ?case by simp
next
  case (Cons a env)
  from Cons.prems(1) obtain err where f: "failure a = Some err" and af: "allFail env"
    by (auto simp: allFail_def)
  from Cons.prems(3) have r: "int r < maxRetries cfg" by simp
  show ?case
  proof (cases n)
    case 0
    with f r show ?thesis by simp
  next
    case (Suc m)
    with Cons.prems have "m < length env" "int (Suc r + m) < maxRetries cfg" by simp_all
    from Cons.IH[OF af this] f r Suc show ?thesis by simp
  qed
qed

lemma join_sleeps:
  assumes "atRest (chanGuild ch) vm" and "quietFor (chanGuild ch) env"
  shows "sleeps (snd (join cfg env ch vm)) (chanGuild ch) = sleeps vm (chanGuild ch) @ backoffs cfg 0 env"
proof -
  let ?g = "chanGuild ch"
  let ?r = "joinUnlockedWithRetries cfg env ch (joinStart ?g vm)"
  from atRest_joinStart[OF assms(1)] obtain s where s: "guildStates (joinStart ?g vm) ?g = Some s"
    and r0: "retries s = 0" by blast
  from retries_quiet[OF assms(2) s, of cfg] r0
  have "sleeps (snd ?r) ?g = sleeps (joinStart ?g vm) ?g @ backoffs cfg 0 env" by simp
  moreover have "sleeps (joinStart ?g vm) = sleeps vm"
    by (simp add: joinStart_eq takeLock_simps getOrCreateState_simps)
  moreover have "sleeps (snd (join cfg env ch vm)) = sleeps (snd ?r)"
    by (simp add: join_free[OF atRest_free[OF assms(1)]] releaseLock_simps split: completion.splits)
  ultimately show ?thesis by simp
qed

lemma calculateBackoff_bounds:
  assumes "0 \<le> u" and "u < 1" and "0 \<le> backoffBase cfg" and "0 \<le> backoffMax cfg"
  shows "calculateBackoff cfg u n = exponential cfg n * (1 + u * 0.3)"
    and "exponential cfg n \<le> calculateBackoff cfg u n"
    and "calculateBackoff cfg u n \<le> exponential cfg n * 1.3"
    and "0 \<le> exponential cfg n"
proof -
  show e0: "0 \<le> exponential cfg n" using assms(3,4) by (simp add: exponential_def)
  show "calculateBackoff cfg u n = exponential cfg n * (1 + u * 0.3)"
    by (simp add: calculateBackoff_def algebra_simps)
  have "0 \<le> u * 0.3 * exponential cfg n" using assms(1) e0 by simp
  then show "exponential cfg n \<le> calculateBackoff cfg u n"
    by (simp add: calculateBackoff_def)
  have "u * 0.3 * exponential cfg n \<le> 1 * 0.3 * exponential cfg n"
    using assms(1,2) e0 by (intro mult_right_mono) simp_all
  then show "calculateBackoff cfg u n \<le> exponential cfg n * 1.3"
    by (simp add: calculateBackoff_def)
qed

subsection \<open>Connections handed out and destroyed\<close>






subsection \<open>The invariant of the sessions\<close>

lemma allOk_modify:
  "allOk vm \<Longrightarrow> (\<And>s. sessionOk s \<Longrightarrow> sessionOk (f s)) \<Longrightarrow> allOk (modifyState g f vm)"
  by (auto simp: allOk_def modifyState_simps)

lemma allOk_frame:
  "guildStates vm' = guildStates vm \<Longrightarrow> allOk vm \<Longrightarrow> allOk vm'"
  by (simp add: allOk_def)

lemma allOk_getOrCreate: "allOk vm \<Longrightarrow> allOk (getOrCreateState g vm)"
  by (auto simp: allOk_def getOrCreateState_simps initialState_def sessionOk_def split: if_splits)

lemma sessionOk_lock: "sessionOk (s\<lparr>operationLock := b\<rparr>) = sessionOk s"
  by (simp add: sessionOk_def)

lemma allOk_takeLock:
  assumes "allOk vm"
  shows "allOk (takeLock g vm)"
proof -
  have "allOk (modifyState g (\<lambda>s. s\<lparr>operationLock := True\<rparr>) vm)"
    using assms by (rule allOk_modify) (simp add: sessionOk_lock)
  then show ?thesis
    by (rule allOk_frame[rotated]) (simp add: takeLock_def)
qed

lemma allOk_releaseLock: "allOk vm \<Longrightarrow> allOk (releaseLock g vm)"
  unfolding releaseLock_def
  by (rule allOk_modify) (simp_all add: sessionOk_lock)

lemma allOk_begin: "allOk vm \<Longrightarrow> allOk (joinUnlockedOnce_begin ch c vm)"
  by (auto simp: allOk_def begin_simps sessionOk_def split: if_splits)

lemma allOk_ready: "allOk vm \<Longrightarrow> allOk (joinUnlockedOnce_ready ch c vm)"
  by (auto simp: allOk_def ready_simps sessionOk_def split: if_splits)

lemma allOk_catch: "allOk vm \<Longrightarrow> allOk (snd (joinCatch cfg ch err r vm))"
  unfolding allOk_def
proof (intro allI impI)
  fix g s
  assume ok: "\<forall>g s. guildStates vm g = Some s \<longrightarrow> sessionOk s"
    and s: "guildStates (snd (joinCatch cfg ch err r vm)) g = Some s"
  show "sessionOk s"
  proof (cases "g = chanGuild ch")
    case False
    with s ok show ?thesis by (simp add: joinCatch_frame)
  next
    case True
    show ?thesis
    proof (cases "guildStates vm (chanGuild ch)")
      case None
      with s True show ?thesis
        by (simp add: joinCatch_def Let_def modifyState_simps destroyCurrent_simps)
    next
      case (Some s0)
      from joinCatch_session(2)[OF Some, of cfg err r] s True show ?thesis
        by (auto simp: sessionOk_def split: if_splits)
    qed
  qed
qed

lemma allOk_moveBegin: "allOk vm \<Longrightarrow> allOk (moveBegin g vm)"
  by (auto simp: allOk_def moveBegin_def Let_def modifyState_simps getOrCreateState_simps
      destroyConn_simps initialState_def sessionOk_def split: option.splits if_splits)

lemma allOk_leaveBody: "allOk vm \<Longrightarrow> allOk (leaveBody g vm)"
  by (auto simp: allOk_def leaveBody_def modifyState_simps destroyConn_simps sessionOk_def
      split: option.splits if_splits)

lemma allOk_deliver: "allOk vm \<Longrightarrow> allOk (deliver sig vm)"
  by (auto simp: allOk_def deliver_guildStates resetSession_def sessionOk_def split: if_splits)

lemma allOk_step: "allOk vm \<Longrightarrow> allOk (step cfg vm ev)"
  by (cases ev)
     (simp_all add: allOk_getOrCreate allOk_takeLock allOk_releaseLock allOk_begin allOk_ready
        allOk_catch allOk_moveBegin allOk_leaveBody allOk_deliver)

lemma allOk_run: "allOk vm \<Longrightarrow> allOk (run cfg evs vm)"
  unfolding run_def by (induction evs arbitrary: vm) (simp_all add: allOk_step)

lemma allOk_empty: "allOk emptyManager"
  by (simp add: allOk_def emptyManager_def)

subsection \<open>Evaluation of concrete runs\<close>

lemmas vm_eval = run_def join_def move_def leave_def acquireLock_def lockHeld_def takeLock_def releaseLock_def
  moveBegin_def leaveBody_def deliverAll_def onDestroyed_def onDisconnectedLost_def resetSession_def
  joinUnlockedOnce_ready_def joinCatch_def joinUnlockedOnce_begin_def getOrCreateState_def
  emptyManager_def modifyState_def setupConnectionHandlers_def destroyCurrent_def destroyConn_def
  initialState_def calculateBackoff_def exponential_def Let_def getConnection_def isInVoice_def

subsection \<open>A retry loop that signals keep alive\<close>

text \<open>
  When the connection of every attempt reports a disconnect that does not recover, the handler
  resets the retry counter during every attempt, and \<^verbatim>\<open>join\<close> does not give up however
  many attempts fail.
\<close>

lemma lost_loop:
  assumes "0 < maxRetries cfg" and "guildStates vm ''g1'' \<noteq> None"
  shows "fst (joinUnlockedWithRetries cfg (map lostAttempt cs) chA vm) = Pending"
  using assms(2)
proof (induction cs arbitrary: vm)
  case Nil
  show ?case by simp
next
  case (Cons c cs)
  then obtain s where s: "guildStates vm ''g1'' = Some s" by auto
  let ?vm1 = "deliverAll (whileConnecting (lostAttempt c)) (joinUnlockedOnce_begin chA (handle (lostAttempt c)) vm)"
  have s1: "guildStates ?vm1 ''g1'' = Some (resetSession (s\<lparr>state := Connecting\<rparr>))"
    by (simp add: lostAttempt_def deliverAll_Cons deliverAll_Nil begin_simps chA_def s
        onDisconnectedLost_def modifyState_simps destroyConn_simps)
  have g: "chanGuild chA = ''g1''" by (simp add: chA_def)
  let ?c = "joinCatch cfg chA ''Connection ready timeout'' (randomDraw (lostAttempt c)) ?vm1"
  have f: "fst ?c" using joinCatch_session(1)[of ?vm1 chA, OF s1[folded g]] assms(1)
    by (simp add: resetSession_def)
  have "guildStates (snd ?c) ''g1'' \<noteq> None"
    using joinCatch_session(2)[of ?vm1 chA, OF s1[folded g], of cfg] by (simp add: g)
  then have "guildStates (deliverAll (whileSleeping (lostAttempt c)) (snd ?c)) ''g1'' \<noteq> None"
    by (rule deliverAll_hasSession)
  from Cons.IH[OF this] f show ?case
    by (simp add: retries_Cons_failed[where err="''Connection ready timeout''"] lostAttempt_def
        del: joinUnlockedWithRetries.simps)
qed

lemma join_never_gives_up:
  assumes "0 < maxRetries cfg"
  shows "fst (join cfg (map lostAttempt cs) chA emptyManager) = Pending"
proof -
  have g: "chanGuild chA = ''g1''" by (simp add: chA_def)
  have a: "atRest (chanGuild chA) emptyManager" by (simp add: atRest_def emptyManager_def)
  have "guildStates (joinStart ''g1'' emptyManager) ''g1'' \<noteq> None"
    using locked_session[of "''g1''" emptyManager] by (auto simp: joinStart_eq)
  from lost_loop[OF assms this, of cs] show ?thesis
    by (simp add: join_free[OF atRest_free[OF a]] g)
qed

subsection \<open>The claims about the voice manager\<close>

text \<open>
  Claim C1, as amended.  In every state that can be observed between two uninterrupted pieces
  of the manager, for every guild session: \<^verbatim>\<open>channelId\<close> is present if and only if
  \<^verbatim>\<open>connection\<close> is present; if the state is \<^verbatim>\<open>Ready\<close> the connection is present; and if
  the connection is present the state is \<^verbatim>\<open>Ready\<close> or \<^verbatim>\<open>Connecting\<close>.  The last case is
  that of a \<^verbatim>\<open>join\<close> issued while the guild holds a connection: the session is
  \<^verbatim>\<open>Connecting\<close> and still records the old connection and channel.
\<close>

theorem session_fields_agree:
  assumes "guildStates (run cfg evs emptyManager) g = Some s"
  shows "(channelId s = None \<longleftrightarrow> connection s = None)
       \<and> (state s = Ready \<longrightarrow> connection s \<noteq> None)
       \<and> (connection s \<noteq> None \<longrightarrow> state s = Ready \<or> state s = Connecting)"
  using allOk_run[OF allOk_empty, of cfg evs] assms
  by (simp add: allOk_def sessionOk_def)

text \<open>An instance: the state reached by \<open>rejoin\<close>.\<close>

theorem session_fields_agree_witness:
  "guildStates (run defaultVoiceConfig rejoin emptyManager) ''g1'' = Some rejoining
   \<and> (channelId rejoining = None) = (connection rejoining = None)
   \<and> connection rejoining = Some 1
   \<and> (state rejoining = Ready \<or> state rejoining = Connecting)"
proof -
  have e: "guildStates (run defaultVoiceConfig rejoin emptyManager) ''g1'' = Some rejoining"
    by (simp add: vm_eval rejoin_def rejoining_def chA_def chA2_def)
  have c: "connection rejoining = Some 1" by (simp add: rejoining_def)
  from session_fields_agree[OF e] e c show ?thesis by simp
qed

text \<open>
  Claim C1 as stated fails: after a join of channel A has succeeded and a second join for the
  guild has started, the session is \<^verbatim>\<open>Connecting\<close> and its connection is present.
\<close>

theorem connection_kept_while_connecting:
  "getConnection ''g1'' (run defaultVoiceConfig rejoin emptyManager) = Some 1
   \<and> map_option state (guildStates (run defaultVoiceConfig rejoin emptyManager) ''g1'') = Some Connecting"
  by (simp add: vm_eval rejoin_def chA_def chA2_def)







text \<open>
  Claim C4, as amended.  For a guild at rest whose attempts all fail, with no signal for the
  guild, the delay slept before retry \<open>n + 1\<close> (the entry \<open>n\<close> of the list of delays) is
  \<open>e * (1 + 0.3 * u)\<close>, where \<open>e = min (backoffBase * 2 ^ (n + 1)) backoffMax\<close> and \<open>u\<close> is the
  random number of that attempt; it lies between \<open>e\<close> and \<open>1.3 * e\<close>; \<open>e\<close> is
  \<open>backoffBase * 2 ^ (n + 1)\<close> as long as that does not exceed \<open>backoffMax\<close>; and the delay
  is at most the next delay as long as \<open>backoffBase * 2 ^ (n + 2)\<close> does not exceed
  \<open>backoffMax\<close>.  The settings are taken as non-negative.
\<close>

theorem backoff_delays:
  assumes rest: "atRest (chanGuild ch) vm" and none: "sleeps vm (chanGuild ch) = []"
    and quiet: "quietFor (chanGuild ch) env" and fail: "allFail env" and draws: "drawsInRange env"
    and base: "0 \<le> backoffBase cfg" and cap: "0 \<le> backoffMax cfg"
    and n: "n < length env" "int n < maxRetries cfg"
  shows "n < length (sleeps (snd (join cfg env ch vm)) (chanGuild ch))
       \<and> sleeps (snd (join cfg env ch vm)) (chanGuild ch) ! n
           = exponential cfg (n + 1) * (1 + randomDraw (env ! n) * 0.3)
       \<and> exponential cfg (n + 1) \<le> sleeps (snd (join cfg env ch vm)) (chanGuild ch) ! n
       \<and> sleeps (snd (join cfg env ch vm)) (chanGuild ch) ! n \<le> exponential cfg (n + 1) * 1.3
       \<and> (real_of_int (backoffBase cfg) * 2 ^ (n + 1) \<le> real_of_int (backoffMax cfg) \<longrightarrow>
            exponential cfg (n + 1) = real_of_int (backoffBase cfg) * 2 ^ (n + 1))
       \<and> (Suc n < length env \<and> int (Suc n) < maxRetries cfg
            \<and> real_of_int (backoffBase cfg) * 2 ^ (n + 2) \<le> real_of_int (backoffMax cfg) \<longrightarrow>
            sleeps (snd (join cfg env ch vm)) (chanGuild ch) ! n
              \<le> sleeps (snd (join cfg env ch vm)) (chanGuild ch) ! Suc n)"
proof -
  let ?ds = "sleeps (snd (join cfg env ch vm)) (chanGuild ch)"
  have ds: "?ds = backoffs cfg 0 env" using join_sleeps[OF rest quiet, of cfg] none by simp
  from backoffs_nth[OF fail n(1), of 0 cfg] n(2)
  have len: "n < length ?ds" and v: "?ds ! n = calculateBackoff cfg (randomDraw (env ! n)) (n + 1)"
    by (simp_all add: ds)
  from draws n(1) have u: "0 \<le> randomDraw (env ! n)" "randomDraw (env ! n) < 1"
    by (simp_all add: drawsInRange_def list_all_length)
  note b = calculateBackoff_bounds[OF u base cap, of "n + 1"]
  have A: "?ds ! n = exponential cfg (n + 1) * (1 + randomDraw (env ! n) * 0.3)"
    unfolding v by (rule b(1))
  have B: "exponential cfg (n + 1) \<le> ?ds ! n" unfolding v by (rule b(2))
  have C: "?ds ! n \<le> exponential cfg (n + 1) * 1.3" unfolding v by (rule b(3))
  have D: "real_of_int (backoffBase cfg) * 2 ^ (n + 1) \<le> real_of_int (backoffMax cfg) \<longrightarrow>
            exponential cfg (n + 1) = real_of_int (backoffBase cfg) * 2 ^ (n + 1)"
    by (simp add: exponential_def)
  have E: "Suc n < length env \<and> int (Suc n) < maxRetries cfg
            \<and> real_of_int (backoffBase cfg) * 2 ^ (n + 2) \<le> real_of_int (backoffMax cfg) \<longrightarrow>
            ?ds ! n \<le> ?ds ! Suc n"
  proof (intro impI, elim conjE)
    assume s: "Suc n < length env" and r: "int (Suc n) < maxRetries cfg"
      and c: "real_of_int (backoffBase cfg) * 2 ^ (n + 2) \<le> real_of_int (backoffMax cfg)"
    from backoffs_nth[OF fail s, of 0 cfg] r
    have v': "?ds ! Suc n = calculateBackoff cfg (randomDraw (env ! Suc n)) (Suc n + 1)"
      by (simp add: ds)
    from draws s have u': "0 \<le> randomDraw (env ! Suc n)" "randomDraw (env ! Suc n) < 1"
      by (simp_all add: drawsInRange_def list_all_length)
    note b' = calculateBackoff_bounds[OF u' base cap, of "Suc n + 1"]
    have e2: "exponential cfg (Suc n + 1) = real_of_int (backoffBase cfg) * 2 ^ (n + 2)"
      using c by (simp add: exponential_def)
    have "exponential cfg (n + 1) \<le> real_of_int (backoffBase cfg) * 2 ^ (n + 1)"
      by (simp add: exponential_def)
    moreover have "0 \<le> real_of_int (backoffBase cfg) * 2 ^ (n + 1)" using base by simp
    ultimately have "exponential cfg (n + 1) * 1.3 \<le> real_of_int (backoffBase cfg) * 2 ^ (n + 2)"
      by simp
    with C b'(2) e2 v' show "?ds ! n \<le> ?ds ! Suc n" by simp
  qed
  from len A B C D E show ?thesis by blast
qed

text \<open>An instance: the second delay with the default settings and the random number 1/2.\<close>

theorem backoff_delays_witness:
  "atRest ''g1'' emptyManager \<and> sleeps emptyManager ''g1'' = []
   \<and> quietFor ''g1'' [timedOut 1 (1/2), timedOut 2 (1/2), timedOut 3 (1/2), timedOut 4 (1/2)]
   \<and> allFail [timedOut 1 (1/2), timedOut 2 (1/2), timedOut 3 (1/2), timedOut 4 (1/2)]
   \<and> drawsInRange [timedOut 1 (1/2), timedOut 2 (1/2), timedOut 3 (1/2), timedOut 4 (1/2)]
   \<and> 0 \<le> backoffBase defaultVoiceConfig \<and> 0 \<le> backoffMax defaultVoiceConfig
   \<and> (1::nat) < length [timedOut 1 (1/2), timedOut 2 (1/2), timedOut 3 (1/2), timedOut 4 (1/2)]
   \<and> int 1 < maxRetries defaultVoiceConfig \<and> int (Suc 1) < maxRetries defaultVoiceConfig
   \<and> real_of_int (backoffBase defaultVoiceConfig) * 2 ^ (1 + 2) \<le> real_of_int (backoffMax defaultVoiceConfig)
   \<and> exponential defaultVoiceConfig (1 + 1) = 4000
   \<and> sleeps (snd (join defaultVoiceConfig
         [timedOut 1 (1/2), timedOut 2 (1/2), timedOut 3 (1/2), timedOut 4 (1/2)] chA emptyManager)) ''g1'' ! 1
       = 4600
   \<and> sleeps (snd (join defaultVoiceConfig
         [timedOut 1 (1/2), timedOut 2 (1/2), timedOut 3 (1/2), timedOut 4 (1/2)] chA emptyManager)) ''g1'' ! 1
       \<le> sleeps (snd (join defaultVoiceConfig
         [timedOut 1 (1/2), timedOut 2 (1/2), timedOut 3 (1/2), timedOut 4 (1/2)] chA emptyManager)) ''g1'' ! Suc 1"
proof -
  let ?env = "[timedOut 1 (1/2), timedOut 2 (1/2), timedOut 3 (1/2), timedOut 4 (1/2)]"
  have g: "chanGuild chA = ''g1''" by (simp add: chA_def)
  have a: "atRest (chanGuild chA) emptyManager" by (simp add: atRest_def emptyManager_def)
  have z: "sleeps emptyManager (chanGuild chA) = []" by (simp add: emptyManager_def)
  have q: "quietFor (chanGuild chA) ?env" by (simp add: quietFor_def timedOut_def)
  have f: "allFail ?env" by (simp add: allFail_def timedOut_def)
  have d: "drawsInRange ?env" by (simp add: drawsInRange_def timedOut_def)
  have b: "0 \<le> backoffBase defaultVoiceConfig" "0 \<le> backoffMax defaultVoiceConfig"
    by (simp_all add: defaultVoiceConfig_def)
  have n: "(1::nat) < length ?env" "int 1 < maxRetries defaultVoiceConfig"
    "int (Suc 1) < maxRetries defaultVoiceConfig"
    by (simp_all add: defaultVoiceConfig_def)
  have c: "real_of_int (backoffBase defaultVoiceConfig) * 2 ^ (1 + 2) \<le> real_of_int (backoffMax defaultVoiceConfig)"
    by (simp add: defaultVoiceConfig_def)
  have e: "exponential defaultVoiceConfig (1 + 1) = 4000"
    by (simp add: exponential_def defaultVoiceConfig_def)
  have u: "randomDraw (?env ! 1) = 1/2" by (simp add: timedOut_def)
  note T = backoff_delays[OF a z q f d b n(1,2)]
  from T have v: "sleeps (snd (join defaultVoiceConfig ?env chA emptyManager)) (chanGuild chA) ! 1
       = exponential defaultVoiceConfig (1 + 1) * (1 + randomDraw (?env ! 1) * 0.3)" by blast
  have v': "sleeps (snd (join defaultVoiceConfig ?env chA emptyManager)) ''g1'' ! 1 = 4600"
    using v unfolding e u g by simp
  from T n c have m: "sleeps (snd (join defaultVoiceConfig ?env chA emptyManager)) (chanGuild chA) ! 1
       \<le> sleeps (snd (join defaultVoiceConfig ?env chA emptyManager)) (chanGuild chA) ! Suc 1"
    by simp
  from a z q f d b n c e v' m show ?thesis unfolding g by blast
qed

text \<open>
  Claim C4 as stated fails: with five retries allowed, base 1000 and cap 10000, the fourth
  delay is 10000, below \<open>1000 * 2 ^ 4\<close>.
\<close>

theorem fourth_backoff_is_capped:
  "sleeps (snd (join fiveRetries [failedAttempt 1, failedAttempt 2, failedAttempt 3, failedAttempt 4, failedAttempt 5] chA emptyManager)) ''g1''
     = [2000, 4000, 8000, 10000, 10000]
   \<and> \<not> (real_of_int (backoffBase fiveRetries) * 2 ^ 4
          \<le> sleeps (snd (join fiveRetries [failedAttempt 1, failedAttempt 2, failedAttempt 3, failedAttempt 4, failedAttempt 5] chA emptyManager)) ''g1'' ! 3)"
proof -
  have s: "sleeps (snd (join fiveRetries [failedAttempt 1, failedAttempt 2, failedAttempt 3, failedAttempt 4, failedAttempt 5] chA emptyManager)) ''g1''
     = [2000, 4000, 8000, 10000, 10000]"
    by (simp add: vm_eval failedAttempt_def chA_def fiveRetries_def)
  show ?thesis unfolding s by (simp add: fiveRetries_def)
qed



section \<open>Properties of the follower\<close>

text \<open>
  Claim C9.  When persistent mode is enabled for the guild, an update in which the owner goes
  from a channel to no channel makes the follower call no method of the manager, and the
  manager, with every session in it, is as before.
\<close>

theorem persistent_mode_suppresses_leave:
  assumes "get247Enabled file (updGuild u)" and "truthy (oldChannelId u)"
    and "\<not> truthy (newChannelId u)"
  shows "handleOwnerLeave file (updGuild u) = None
       \<and> followerCall file u = None
       \<and> processVoiceStateUpdate cfg file env u vm = vm"
  using assms by (simp add: handleOwnerLeave_def followerCall_def processVoiceStateUpdate_def)

text \<open>
  An instance: with persistent mode on the bot stays in voice; with an empty settings file the
  same update makes the follower call \<^verbatim>\<open>leave\<close>, and the bot is no longer in voice.
\<close>

theorem persistent_mode_suppresses_leave_witness:
  "get247Enabled stayOn (updGuild ownerLeft) \<and> truthy (oldChannelId ownerLeft)
   \<and> \<not> truthy (newChannelId ownerLeft)
   \<and> followerCall stayOn ownerLeft = None
   \<and> processVoiceStateUpdate defaultVoiceConfig stayOn [] ownerLeft afterJoin = afterJoin
   \<and> isInVoice ''g1'' (processVoiceStateUpdate defaultVoiceConfig stayOn [] ownerLeft afterJoin)
   \<and> followerCall Map.empty ownerLeft = Some (CallLeave ''g1'')
   \<and> \<not> isInVoice ''g1'' (processVoiceStateUpdate defaultVoiceConfig Map.empty [] ownerLeft afterJoin)"
proof -
  have a: "get247Enabled stayOn (updGuild ownerLeft)"
    by (simp add: get247Enabled_def stayOn_def ownerLeft_def)
  have b: "truthy (oldChannelId ownerLeft)" by (simp add: truthy_def ownerLeft_def)
  have c: "\<not> truthy (newChannelId ownerLeft)" by (simp add: truthy_def ownerLeft_def)
  have d: "isInVoice ''g1'' afterJoin"
    by (simp add: vm_eval afterJoin_def readyAttempt_def chA_def defaultVoiceConfig_def)
  have e: "followerCall Map.empty ownerLeft = Some (CallLeave ''g1'')"
    by (simp add: followerCall_def handleOwnerLeave_def get247Enabled_def truthy_def ownerLeft_def)
  have f: "\<not> isInVoice ''g1'' (processVoiceStateUpdate defaultVoiceConfig Map.empty [] ownerLeft afterJoin)"
    by (simp add: processVoiceStateUpdate_def e vm_eval afterJoin_def readyAttempt_def chA_def
        defaultVoiceConfig_def)
  from persistent_mode_suppresses_leave[OF a b c, of defaultVoiceConfig "[]" afterJoin] a b c d e f
  show ?thesis by simp
qed

end
